theory Spec2Isabelle
  imports Complex_Main
begin

section \<open>Numbers\<close>

text \<open>
  A JavaScript number is an IEEE-754 double. The embedding keeps the finite values as
  reals (rounding is not modelled) and keeps the three special values, because the
  detectors divide by quantities that can be zero: \<open>0 / 0\<close> is \<open>NaN\<close>, every
  comparison with \<open>NaN\<close> is false, and \<open>x / 0\<close> is an infinity for \<open>x \<noteq> 0\<close>.
  A zero divisor is always a maximum of absolute values or a product of sizes here,
  so it is \<open>+0\<close>; signed zeros are not distinguished.
\<close>

datatype jsnum = Num real | NaN | PosInf | NegInf

fun js_div :: "jsnum \<Rightarrow> jsnum \<Rightarrow> jsnum" where
  "js_div (Num a) (Num b) =
     (if b \<noteq> 0 then Num (a / b) else if a = 0 then NaN else if 0 < a then PosInf else NegInf)"
| "js_div (Num a) PosInf = Num 0"
| "js_div (Num a) NegInf = Num 0"
| "js_div PosInf (Num b) = (if 0 \<le> b then PosInf else NegInf)"
| "js_div NegInf (Num b) = (if 0 \<le> b then NegInf else PosInf)"
| "js_div _ _ = NaN"

fun js_add :: "jsnum \<Rightarrow> jsnum \<Rightarrow> jsnum" where
  "js_add (Num a) (Num b) = Num (a + b)"
| "js_add NaN _ = NaN"
| "js_add _ NaN = NaN"
| "js_add PosInf NegInf = NaN"
| "js_add NegInf PosInf = NaN"
| "js_add PosInf _ = PosInf"
| "js_add _ PosInf = PosInf"
| "js_add NegInf _ = NegInf"
| "js_add _ NegInf = NegInf"

fun js_mul :: "jsnum \<Rightarrow> jsnum \<Rightarrow> jsnum" where
  "js_mul (Num a) (Num b) = Num (a * b)"
| "js_mul NaN _ = NaN"
| "js_mul _ NaN = NaN"
| "js_mul PosInf (Num b) = (if b = 0 then NaN else if 0 < b then PosInf else NegInf)"
| "js_mul NegInf (Num b) = (if b = 0 then NaN else if 0 < b then NegInf else PosInf)"
| "js_mul (Num a) PosInf = (if a = 0 then NaN else if 0 < a then PosInf else NegInf)"
| "js_mul (Num a) NegInf = (if a = 0 then NaN else if 0 < a then NegInf else PosInf)"
| "js_mul PosInf PosInf = PosInf"
| "js_mul NegInf NegInf = PosInf"
| "js_mul PosInf NegInf = NegInf"
| "js_mul NegInf PosInf = NegInf"

text \<open>\<open>a > b\<close> and \<open>a >= b\<close>: false as soon as one side is \<open>NaN\<close>.\<close>

fun js_gt :: "jsnum \<Rightarrow> jsnum \<Rightarrow> bool" where
  "js_gt (Num a) (Num b) = (b < a)"
| "js_gt NaN _ = False"
| "js_gt _ NaN = False"
| "js_gt PosInf PosInf = False"
| "js_gt PosInf _ = True"
| "js_gt _ PosInf = False"
| "js_gt NegInf _ = False"
| "js_gt _ NegInf = True"

fun js_ge :: "jsnum \<Rightarrow> jsnum \<Rightarrow> bool" where
  "js_ge (Num a) (Num b) = (b \<le> a)"
| "js_ge NaN _ = False"
| "js_ge _ NaN = False"
| "js_ge PosInf _ = True"
| "js_ge _ NegInf = True"
| "js_ge NegInf _ = False"
| "js_ge _ PosInf = False"

text \<open>\<open>Math.min(a, b)\<close>: \<open>NaN\<close> if either argument is.\<close>

fun js_min :: "jsnum \<Rightarrow> jsnum \<Rightarrow> jsnum" where
  "js_min (Num a) (Num b) = Num (min a b)"
| "js_min NaN _ = NaN"
| "js_min _ NaN = NaN"
| "js_min NegInf _ = NegInf"
| "js_min _ NegInf = NegInf"
| "js_min PosInf b = b"
| "js_min a PosInf = a"

text \<open>\<open>Math.round(x)\<close> rounds half up.\<close>

definition js_round :: "real \<Rightarrow> int" where
  "js_round x = \<lfloor>x + 1 / 2\<rfloor>"

text \<open>A confidence the data model accepts: a finite number between 0 and 1.\<close>

fun in_unit_interval :: "jsnum \<Rightarrow> bool" where
  "in_unit_interval (Num c) = (0 \<le> c \<and> c \<le> 1)"
| "in_unit_interval _ = False"

text \<open>
  \<open>Number.prototype.toString(radix)\<close> on a natural number, and the digits it uses.
  Template strings print a number in radix 10.
\<close>

definition digit_char :: "nat \<Rightarrow> char" where
  "digit_char d = ''0123456789abcdefghijklmnopqrstuvwxyz'' ! d"

function toString_radix :: "nat \<Rightarrow> nat \<Rightarrow> string" where
  "toString_radix b n =
     (if n < b \<or> b < 2 then [digit_char n]
      else toString_radix b (n div b) @ [digit_char (n mod b)])"
  by pat_completeness auto
termination
  by (relation "measure (\<lambda>(b, n). n)") auto

declare toString_radix.simps [simp del]

section \<open>Data model\<close>

text \<open>
  The interfaces of \<open>types/detection.ts\<close>. The fields of a bounding box are numbers:
  the boxes the detectors emit have whole-number fields (grid multiples, or
  \<open>Math.floor\<close> of a position), but a vehicle region passed to a detector as a hint can
  hold any finite numbers. A confidence is a JavaScript number.
\<close>

record BoundingBox =
  bb_x :: real
  bb_y :: real
  bb_width :: real
  bb_height :: real

datatype vehicle_type = Front | Rear | Side

record VehicleRegion =
  vr_type :: vehicle_type
  vr_bbox :: BoundingBox
  vr_confidence :: jsnum

record LicensePlateRegion =
  lp_bbox :: BoundingBox
  lp_confidence :: jsnum

record LogoRegion =
  lg_bbox :: BoundingBox
  lg_confidence :: jsnum

section \<open>Images and the numeric backend\<close>

text \<open>
  A decoded image is a tensor of shape \<open>[height, width, 3]\<close> with channel values
  \<open>0..255\<close>; \<open>img_data\<close> lists its pixels row by row, as \<open>tensor.data()\<close> does.
\<close>

type_synonym rgb = "nat \<times> nat \<times> nat"

record image =
  img_height :: nat
  img_width :: nat
  img_data :: "rgb list"

definition wf_image :: "image \<Rightarrow> bool" where
  "wf_image img =
     (0 < img_height img \<and> 0 < img_width img
      \<and> length (img_data img) = img_height img * img_width img)"

text \<open>
  The tensor operations run on a numeric backend that can throw (a lost device, an
  exhausted memory). A backend is described by the operations that throw on it; a block
  of tensor code throws as soon as one of its operations does.
\<close>

datatype tf_op = TfMean | TfConv2d | TfElementwise | TfMax | TfSlice | TfData

datatype tf_error = TfError tf_op

type_synonym backend = "tf_op \<Rightarrow> bool"

definition healthy :: backend where
  "healthy op = False"

definition tf_try :: "backend \<Rightarrow> tf_op list \<Rightarrow> 'a \<Rightarrow> tf_error + 'a" where
  "tf_try be ops v = (case filter be ops of [] \<Rightarrow> Inr v | op # _ \<Rightarrow> Inl (TfError op))"

text \<open>\<open>imageTensor.mean(2)\<close>: the mean of the three channels.\<close>

definition grayscale :: "image \<Rightarrow> real list" where
  "grayscale img = map (\<lambda>(r, g, b). (real r + real g + real b) / 3) (img_data img)"

text \<open>
  \<open>tf.conv2d(x, kernel, 1, 'same')\<close> with a 3x3 kernel: a cross-correlation over the
  field padded with one ring of zeros, so that the output has the shape of the input.
\<close>

definition field_at :: "real list \<Rightarrow> nat \<Rightarrow> nat \<Rightarrow> int \<Rightarrow> int \<Rightarrow> real" where
  "field_at f h w y x =
     (if 0 \<le> y \<and> y < int h \<and> 0 \<le> x \<and> x < int w then f ! (nat y * w + nat x) else 0)"

definition conv_at :: "real list list \<Rightarrow> real list \<Rightarrow> nat \<Rightarrow> nat \<Rightarrow> int \<Rightarrow> int \<Rightarrow> real" where
  "conv_at k f h w y x =
     (\<Sum>i\<leftarrow>[0..<3]. \<Sum>j\<leftarrow>[0..<3]. field_at f h w (y + int i - 1) (x + int j - 1) * (k ! i ! j))"

definition conv2d_same :: "real list list \<Rightarrow> real list \<Rightarrow> nat \<Rightarrow> nat \<Rightarrow> real list" where
  "conv2d_same k f h w = map (\<lambda>idx. conv_at k f h w (int (idx div w)) (int (idx mod w))) [0..<h * w]"

definition sobelX :: "real list list" where
  "sobelX = [[-1, 0, 1], [-2, 0, 2], [-1, 0, 1]]"

definition sobelY :: "real list list" where
  "sobelY = [[-1, -2, -1], [0, 0, 0], [1, 2, 1]]"

definition laplacian :: "real list list" where
  "laplacian = [[0, 1, 0], [1, -4, 1], [0, 1, 0]]"

text \<open>\<open>tensor.max()\<close>; the maximum of no value at all is \<open>-Infinity\<close>.\<close>

definition tf_max :: "real list \<Rightarrow> jsnum" where
  "tf_max xs = (if xs = [] then NegInf else Num (Max (set xs)))"

text \<open>An element of a typed array, \<open>undefined\<close> out of range: \<open>data[idx] || 0\<close>.\<close>

definition data_or_zero :: "real list \<Rightarrow> int \<Rightarrow> real" where
  "data_or_zero d idx = (if 0 \<le> idx \<and> idx < int (length d) then d ! nat idx else 0)"

section \<open>Vehicle region detector\<close>

text \<open>
  The tensor part of \<open>detectVehicleRegion\<close>: grayscale, both Sobel responses, their
  magnitude \<open>sqrt(gx^2 + gy^2)\<close>, the division by the maximum and the threshold
  \<open>0.15\<close>. The result is the mask read back by \<open>threshold.data()\<close>.
\<close>

definition gradient_magnitude :: "image \<Rightarrow> real list" where
  "gradient_magnitude img =
     (let gray = grayscale img;
          gradX = conv2d_same sobelX gray (img_height img) (img_width img);
          gradY = conv2d_same sobelY gray (img_height img) (img_width img)
      in map (\<lambda>(gx, gy). sqrt (gx\<^sup>2 + gy\<^sup>2)) (zip gradX gradY))"

definition normalized_magnitude :: "image \<Rightarrow> jsnum list" where
  "normalized_magnitude img =
     (let magnitude = gradient_magnitude img; maxVal = tf_max magnitude
      in map (\<lambda>m. js_div (Num m) maxVal) magnitude)"

definition vehicle_edges :: "backend \<Rightarrow> image \<Rightarrow> tf_error + bool list" where
  "vehicle_edges be img =
     tf_try be [TfMean, TfConv2d, TfElementwise, TfMax, TfData]
       (map (\<lambda>v. js_gt v (Num (15 / 100))) (normalized_magnitude img))"

text \<open>\<open>edgeData[idx]\<close> as a condition: \<open>undefined\<close> out of range is falsy.\<close>

definition edge_at :: "bool list \<Rightarrow> nat \<Rightarrow> bool" where
  "edge_at edgeData idx = (idx < length edgeData \<and> edgeData ! idx)"

text \<open>
  The two inner loops of the scan count the edge pixels of the window that starts at
  \<open>(startX, startY)\<close>, clipped to the image; the count is then divided by the area of
  the unclipped window.
\<close>

definition count_edges :: "bool list \<Rightarrow> nat \<Rightarrow> nat \<Rightarrow> nat \<Rightarrow> nat \<Rightarrow> nat \<Rightarrow> nat \<Rightarrow> nat" where
  "count_edges edgeData imageWidth imageHeight startX startY regionWidth regionHeight =
     length (filter (\<lambda>(y, x). edge_at edgeData (y * imageWidth + x))
       (List.product [startY..<min (startY + regionHeight) imageHeight]
                     [startX..<min (startX + regionWidth) imageWidth]))"

definition window_density :: "bool list \<Rightarrow> nat \<Rightarrow> nat \<Rightarrow> nat \<Rightarrow> nat \<Rightarrow> jsnum" where
  "window_density edgeData imageWidth imageHeight gx gy =
     (let cellWidth = imageWidth div 8; cellHeight = imageHeight div 8;
          regionWidth = cellWidth * 3; regionHeight = cellHeight * 3
      in js_div (Num (real (count_edges edgeData imageWidth imageHeight
                             (gx * cellWidth) (gy * cellHeight) regionWidth regionHeight)))
                (Num (real (regionWidth * regionHeight))))"

definition grid_window :: "nat \<Rightarrow> nat \<Rightarrow> nat \<Rightarrow> nat \<Rightarrow> BoundingBox" where
  "grid_window imageWidth imageHeight gx gy =
     \<lparr>bb_x = real (gx * (imageWidth div 8)), bb_y = real (gy * (imageHeight div 8)),
      bb_width = real (imageWidth div 8 * 3), bb_height = real (imageHeight div 8 * 3)\<rparr>"

text \<open>One iteration of the body of the two grid loops, on \<open>(maxDensity, bestRegion)\<close>.\<close>

definition vehicle_step ::
  "bool list \<Rightarrow> nat \<Rightarrow> nat \<Rightarrow> nat \<times> nat \<Rightarrow> jsnum \<times> BoundingBox \<Rightarrow> jsnum \<times> BoundingBox" where
  "vehicle_step edgeData imageWidth imageHeight p mb =
     (case p of (gy, gx) \<Rightarrow> case mb of (maxDensity, bestRegion) \<Rightarrow>
        let density = window_density edgeData imageWidth imageHeight gx gy
        in if js_gt density maxDensity
           then (density, grid_window imageWidth imageHeight gx gy)
           else (maxDensity, bestRegion))"

text \<open>The grid positions in scan order: \<open>gy\<close> outer, \<open>gx\<close> inner, both below \<open>gridSize - 2\<close>.\<close>

definition grid_positions :: "(nat \<times> nat) list" where
  "grid_positions = List.product [0..<8 - 2] [0..<8 - 2]"

definition vehicle_scan :: "bool list \<Rightarrow> nat \<Rightarrow> nat \<Rightarrow> VehicleRegion option" where
  "vehicle_scan edgeData imageWidth imageHeight =
     (case fold (vehicle_step edgeData imageWidth imageHeight) grid_positions
             (Num 0, \<lparr>bb_x = 0, bb_y = 0, bb_width = 0, bb_height = 0\<rparr>)
      of (maxDensity, bestRegion) \<Rightarrow>
        if js_gt maxDensity (Num (5 / 100)) then
          let centerY = bb_y bestRegion + bb_height bestRegion / 2
          in Some \<lparr>vr_type = (if centerY > real imageHeight * (5 / 10) then Rear else Front),
                   vr_bbox = bestRegion,
                   vr_confidence = js_min (js_mul maxDensity (Num 5)) (Num (95 / 100))\<rparr>
        else None)"

text \<open>
  \<open>detectVehicleRegion\<close>: whatever the tensor code throws is caught, logged and answered
  with \<open>null\<close>.
\<close>

definition detectVehicleRegion :: "backend \<Rightarrow> image \<Rightarrow> nat \<Rightarrow> nat \<Rightarrow> VehicleRegion option" where
  "detectVehicleRegion be imageTensor imageWidth imageHeight =
     (case vehicle_edges be imageTensor of
        Inl e \<Rightarrow> None
      | Inr edgeData \<Rightarrow> vehicle_scan edgeData imageWidth imageHeight)"

text \<open>
  The density of the window at grid position \<open>p = (gy, gx)\<close> as a real number, for the
  images whose grid cells are not empty.
\<close>

definition density_val :: "bool list \<Rightarrow> nat \<Rightarrow> nat \<Rightarrow> nat \<times> nat \<Rightarrow> real" where
  "density_val e W H p =
     real (count_edges e W H (snd p * (W div 8)) (fst p * (H div 8)) (W div 8 * 3) (H div 8 * 3))
       / real (W div 8 * 3 * (H div 8 * 3))"

text \<open>
  The threshold mask without square roots, for evaluation: \<open>sqrt q / sqrt M > 0.15\<close>
  is decided on the squared magnitudes as \<open>0 < M\<close> and \<open>0.15^2 * M < q\<close>
  (lemma \<open>vehicle_edges_healthy\<close> below).
\<close>

definition sq_magnitude :: "image \<Rightarrow> real list" where
  "sq_magnitude img =
     (let gray = grayscale img;
          gradX = conv2d_same sobelX gray (img_height img) (img_width img);
          gradY = conv2d_same sobelY gray (img_height img) (img_width img)
      in map (\<lambda>(gx, gy). gx\<^sup>2 + gy\<^sup>2) (zip gradX gradY))"

definition sq_mask :: "image \<Rightarrow> bool list" where
  "sq_mask img =
     (let sq = sq_magnitude img
      in if sq = [] then []
         else let M = Max (set sq) in map (\<lambda>q. 0 < M \<and> (15 / 100)\<^sup>2 * M < q) sq)"

text \<open>An 8x8 image, black but for one white pixel in its bottom right corner.\<close>

definition corner_image :: image where
  "corner_image =
     \<lparr>img_height = 8, img_width = 8, img_data = replicate 63 (0, 0, 0) @ [(255, 255, 255)]\<rparr>"

definition corner_mask :: "bool list" where
  "corner_mask = replicate 54 False @ [True, True] @ replicate 6 False @ [True, False]"

section \<open>Loops over a real-valued position\<close>

text \<open>
  \<open>for (let v = start; v < bound; v += step) body\<close> with a state threaded through the
  body. The positions are real numbers and the step is computed from the image width, so
  the loop runs forever when the step is not positive and the start is below the bound:
  the result is an option, \<open>None\<close> for a loop that does not return.
\<close>

partial_function (option) for_real ::
  "real \<Rightarrow> real \<Rightarrow> (real \<Rightarrow> 's \<Rightarrow> 's option) \<Rightarrow> real \<Rightarrow> 's \<Rightarrow> 's option" where
  "for_real bound step body v s =
     (if v < bound then Option.bind (body v s) (for_real bound step body (v + step))
      else Some s)"

declare for_real.simps [code]

text \<open>The positions such a loop visits when its step is positive.\<close>

definition loop_positions :: "real \<Rightarrow> real \<Rightarrow> real \<Rightarrow> real list" where
  "loop_positions start bound step =
     map (\<lambda>k. start + real k * step) [0..<nat \<lceil>(bound - start) / step\<rceil>]"

section \<open>License plate detector\<close>

text \<open>
  The tensor part of \<open>detectLicensePlateRegion\<close>: grayscale, the response of the
  horizontal Sobel kernel alone, its absolute value, and the maximum of that field.
\<close>

definition plate_edges :: "backend \<Rightarrow> image \<Rightarrow> tf_error + real list \<times> jsnum" where
  "plate_edges be img =
     tf_try be [TfMean, TfConv2d, TfElementwise, TfData, TfMax]
       (let edges = map abs (conv2d_same sobelX (grayscale img) (img_height img) (img_width img))
        in (edges, tf_max edges))"

text \<open>\<open>(searchStartX, searchStartY, searchEndX, searchEndY)\<close>.\<close>

definition plate_search_bounds ::
  "nat \<Rightarrow> nat \<Rightarrow> VehicleRegion option \<Rightarrow> real \<times> real \<times> real \<times> real" where
  "plate_search_bounds imageWidth imageHeight vehicleRegion =
     (case vehicleRegion of
        None \<Rightarrow> (0, of_int \<lfloor>real imageHeight * (4 / 10)\<rfloor>, real imageWidth, real imageHeight)
      | Some v \<Rightarrow>
          (bb_x (vr_bbox v),
           bb_y (vr_bbox v) + bb_height (vr_bbox v) * (3 / 10),
           bb_x (vr_bbox v) + bb_width (vr_bbox v),
           bb_y (vr_bbox v) + bb_height (vr_bbox v)))"

text \<open>
  \<open>edgeVal = (edgeData[idx] || 0) / maxEdge\<close> for the pixels of the window of size
  \<open>w\<close> by \<open>h\<close> at \<open>(x, y)\<close>, in the order of the two inner loops: \<open>dy\<close> and \<open>dx\<close> count
  up from 0 while they are below \<open>h\<close> and \<open>w\<close>.
\<close>

definition plate_edge_val :: "real list \<Rightarrow> jsnum \<Rightarrow> int \<Rightarrow> jsnum" where
  "plate_edge_val edgeData maxEdge idx = js_div (Num (data_or_zero edgeData idx)) maxEdge"

definition plate_window_vals ::
  "real list \<Rightarrow> jsnum \<Rightarrow> nat \<Rightarrow> real \<Rightarrow> real \<Rightarrow> real \<Rightarrow> real \<Rightarrow> jsnum list" where
  "plate_window_vals edgeData maxEdge imageWidth w h x y =
     concat (map (\<lambda>dy. map (\<lambda>dx.
         plate_edge_val edgeData maxEdge
           (\<lfloor>y + real dy\<rfloor> * int imageWidth + \<lfloor>x + real dx\<rfloor>))
       [0..<nat \<lceil>w\<rceil>]) [0..<nat \<lceil>h\<rceil>])"

type_synonym plate_candidate = "BoundingBox \<times> jsnum"

definition plate_edgeDensity ::
  "real list \<Rightarrow> jsnum \<Rightarrow> nat \<Rightarrow> real \<Rightarrow> real \<Rightarrow> real \<Rightarrow> real \<Rightarrow> jsnum" where
  "plate_edgeDensity edgeData maxEdge imageWidth w h x y =
     js_div (fold (\<lambda>edgeVal edgeDensity. js_add edgeDensity edgeVal)
               (plate_window_vals edgeData maxEdge imageWidth w h x y) (Num 0))
            (Num (w * h))"

definition plate_horizontalRatio ::
  "real list \<Rightarrow> jsnum \<Rightarrow> nat \<Rightarrow> real \<Rightarrow> real \<Rightarrow> real \<Rightarrow> real \<Rightarrow> jsnum" where
  "plate_horizontalRatio edgeData maxEdge imageWidth w h x y =
     js_div (Num (real (length (filter (\<lambda>edgeVal. js_gt edgeVal (Num (3 / 10)))
                                  (plate_window_vals edgeData maxEdge imageWidth w h x y)))))
            (Num (w * h))"

text \<open>The body of the \<open>x\<close> loop: the candidate pushed for the window at \<open>(x, y)\<close>, if any.\<close>

definition plate_window ::
  "real list \<Rightarrow> jsnum \<Rightarrow> nat \<Rightarrow> real \<Rightarrow> real \<Rightarrow> real \<Rightarrow> real \<Rightarrow> plate_candidate list" where
  "plate_window edgeData maxEdge imageWidth w h x y =
     (let edgeDensity = plate_edgeDensity edgeData maxEdge imageWidth w h x y;
          horizontalRatio = plate_horizontalRatio edgeData maxEdge imageWidth w h x y
      in if js_gt edgeDensity (Num (15 / 100)) \<and> js_gt horizontalRatio (Num (1 / 10))
         then [(\<lparr>bb_x = of_int \<lfloor>x\<rfloor>, bb_y = of_int \<lfloor>y\<rfloor>,
                  bb_width = of_int \<lfloor>w\<rfloor>, bb_height = of_int \<lfloor>h\<rfloor>\<rparr>,
                js_add (js_mul edgeDensity (Num (6 / 10))) (js_mul horizontalRatio (Num (4 / 10))))]
         else [])"

text \<open>The \<open>y\<close> and \<open>x\<close> loops for one plate size, appending to \<open>candidates\<close>.\<close>

definition plate_scan_size ::
  "real list \<Rightarrow> jsnum \<Rightarrow> nat \<Rightarrow> real \<times> real \<times> real \<times> real \<Rightarrow> real \<times> real
     \<Rightarrow> plate_candidate list \<Rightarrow> plate_candidate list option" where
  "plate_scan_size edgeData maxEdge imageWidth bounds sz candidates =
     (case bounds of (searchStartX, searchStartY, searchEndX, searchEndY) \<Rightarrow>
      case sz of (w, h) \<Rightarrow>
        let stepX = w * (3 / 10); stepY = h * (5 / 10)
        in for_real (searchEndY - h) stepY
             (\<lambda>y. for_real (searchEndX - w) stepX
                (\<lambda>x cs. Some (cs @ plate_window edgeData maxEdge imageWidth w h x y))
                searchStartX)
             searchStartY candidates)"

definition plateSizes :: "nat \<Rightarrow> (real \<times> real) list" where
  "plateSizes imageWidth =
     [(real imageWidth * (25 / 100), real imageWidth * (65 / 1000)),
      (real imageWidth * (15 / 100), real imageWidth * (75 / 1000))]"

fun plate_scan_sizes ::
  "real list \<Rightarrow> jsnum \<Rightarrow> nat \<Rightarrow> real \<times> real \<times> real \<times> real \<Rightarrow> (real \<times> real) list
     \<Rightarrow> plate_candidate list \<Rightarrow> plate_candidate list option" where
  "plate_scan_sizes edgeData maxEdge imageWidth bounds [] candidates = Some candidates"
| "plate_scan_sizes edgeData maxEdge imageWidth bounds (sz # sizes) candidates =
     Option.bind (plate_scan_size edgeData maxEdge imageWidth bounds sz candidates)
       (plate_scan_sizes edgeData maxEdge imageWidth bounds sizes)"

definition plate_candidates ::
  "real list \<Rightarrow> jsnum \<Rightarrow> nat \<Rightarrow> nat \<Rightarrow> VehicleRegion option \<Rightarrow> plate_candidate list option" where
  "plate_candidates edgeData maxEdge imageWidth imageHeight vehicleRegion =
     plate_scan_sizes edgeData maxEdge imageWidth
       (plate_search_bounds imageWidth imageHeight vehicleRegion) (plateSizes imageWidth) []"

text \<open>
  \<open>candidates.sort((a, b) => b.score - a.score)\<close>: a stable sort by descending score.
  The comparator is positive exactly when \<open>b.score > a.score\<close>; a stable insertion sort
  stands for the engine's algorithm, which yields the same list whenever the scores
  are comparable.
\<close>

fun insert_by_score :: "plate_candidate \<Rightarrow> plate_candidate list \<Rightarrow> plate_candidate list" where
  "insert_by_score a [] = [a]"
| "insert_by_score a (b # bs) =
     (if js_gt (snd b) (snd a) then b # insert_by_score a bs else a # b # bs)"

definition sort_by_score :: "plate_candidate list \<Rightarrow> plate_candidate list" where
  "sort_by_score cs = foldr insert_by_score cs []"

definition plate_best :: "plate_candidate list \<Rightarrow> LicensePlateRegion option" where
  "plate_best candidates =
     (case sort_by_score candidates of
        [] \<Rightarrow> None
      | best # _ \<Rightarrow>
          Some \<lparr>lp_bbox = fst best,
                lp_confidence = js_min (js_mul (snd best) (Num 2)) (Num (9 / 10))\<rparr>)"

text \<open>
  \<open>detectLicensePlateRegion\<close>. The outer option is \<open>None\<close> when the call does not return;
  the inner one is the \<open>null\<close> of the source, also returned when the tensor code throws.
\<close>

definition detectLicensePlateRegion ::
  "backend \<Rightarrow> image \<Rightarrow> nat \<Rightarrow> nat \<Rightarrow> VehicleRegion option \<Rightarrow> LicensePlateRegion option option" where
  "detectLicensePlateRegion be imageTensor imageWidth imageHeight vehicleRegion =
     (case plate_edges be imageTensor of
        Inl e \<Rightarrow> Some None
      | Inr (edgeData, maxEdge) \<Rightarrow>
          map_option plate_best
            (plate_candidates edgeData maxEdge imageWidth imageHeight vehicleRegion))"

text \<open>
  The candidates of one plate size as a list over the positions of the two loops; it is
  what \<open>plate_scan_size\<close> appends when the size is positive (lemma
  \<open>plate_scan_size_total\<close> below).
\<close>

definition plate_size_candidates ::
  "real list \<Rightarrow> jsnum \<Rightarrow> nat \<Rightarrow> real \<times> real \<times> real \<times> real \<Rightarrow> real \<times> real
     \<Rightarrow> plate_candidate list" where
  "plate_size_candidates edgeData maxEdge imageWidth bounds sz =
     (case bounds of (searchStartX, searchStartY, searchEndX, searchEndY) \<Rightarrow>
      case sz of (w, h) \<Rightarrow>
        concat (map (\<lambda>y. concat (map (\<lambda>x. plate_window edgeData maxEdge imageWidth w h x y)
                                  (loop_positions searchStartX (searchEndX - w) (w * (3 / 10)))))
                  (loop_positions searchStartY (searchEndY - h) (h * (5 / 10)))))"

text \<open>
  An 8x8 image, black but for one white pixel in its top row, and the vehicle region
  the grid scan emits for the top left window of an 8x8 image.
\<close>

definition top_image :: image where
  "top_image =
     \<lparr>img_height = 8, img_width = 8,
      img_data = [(0, 0, 0), (255, 255, 255)] @ replicate 62 (0, 0, 0)\<rparr>"

definition top_edges :: "real list" where
  "top_edges = [510, 0, 510] @ replicate 5 0 @ [255, 0, 255] @ replicate 53 0"

definition grid_hint :: VehicleRegion where
  "grid_hint =
     \<lparr>vr_type = Front, vr_bbox = \<lparr>bb_x = 0, bb_y = 0, bb_width = 3, bb_height = 3\<rparr>,
      vr_confidence = Num (95 / 100)\<rparr>"



text \<open>
  The response of the horizontal Sobel kernel at pixel \<open>(y, x)\<close> written out: the
  weighted column to the right minus the weighted column to the left, the field being
  zero outside the image.
\<close>

definition sobel_x_response :: "image \<Rightarrow> int \<Rightarrow> int \<Rightarrow> real" where
  "sobel_x_response img y x =
     (let g = field_at (grayscale img) (img_height img) (img_width img)
      in (g (y - 1) (x + 1) + 2 * g y (x + 1) + g (y + 1) (x + 1))
         - (g (y - 1) (x - 1) + 2 * g y (x - 1) + g (y + 1) (x - 1)))"

text \<open>
  The field of the absolute responses of the horizontal Sobel kernel alone, pixel by
  pixel and row by row; the edge value read off that field at a flat index, which is the
  absolute response of the pixel there (0 where the index is outside the field) divided
  by the maximum of the field; and the edge values so obtained for the pixels of the
  window of size \<open>w\<close> by \<open>h\<close> at \<open>(x, y)\<close>. These three are what the license plate detector
  is compared with.
\<close>

definition horizontal_edge_field :: "image \<Rightarrow> real list" where
  "horizontal_edge_field img =
     map (\<lambda>idx. \<bar>sobel_x_response img (int (idx div img_width img)) (int (idx mod img_width img))\<bar>)
       [0..<img_height img * img_width img]"

definition horizontal_edge_val :: "image \<Rightarrow> int \<Rightarrow> jsnum" where
  "horizontal_edge_val img idx =
     js_div (Num (if 0 \<le> idx \<and> idx < int (img_height img * img_width img)
                  then \<bar>sobel_x_response img (idx div int (img_width img)) (idx mod int (img_width img))\<bar>
                  else 0))
            (tf_max (horizontal_edge_field img))"

definition horizontal_window_vals :: "image \<Rightarrow> nat \<Rightarrow> real \<Rightarrow> real \<Rightarrow> real \<Rightarrow> real \<Rightarrow> jsnum list" where
  "horizontal_window_vals img imageWidth w h x y =
     concat (map (\<lambda>dy. map (\<lambda>dx.
         horizontal_edge_val img (\<lfloor>y + real dy\<rfloor> * int imageWidth + \<lfloor>x + real dx\<rfloor>))
       [0..<nat \<lceil>w\<rceil>]) [0..<nat \<lceil>h\<rceil>])"

section \<open>Logo detector\<close>

text \<open>
  The tensor part of \<open>detectLogoRegion\<close>: grayscale, the absolute response of the
  Laplacian kernel, and the maximum of that field.
\<close>

definition logo_response :: "backend \<Rightarrow> image \<Rightarrow> tf_error + real list \<times> jsnum" where
  "logo_response be img =
     tf_try be [TfMean, TfConv2d, TfElementwise, TfData, TfMax]
       (let response = map abs (conv2d_same laplacian (grayscale img) (img_height img) (img_width img))
        in (response, tf_max response))"

text \<open>\<open>(searchCenterX, searchCenterY, searchRadius)\<close>.\<close>

definition logo_search :: "nat \<Rightarrow> nat \<Rightarrow> VehicleRegion option \<Rightarrow> real \<times> real \<times> real" where
  "logo_search imageWidth imageHeight vehicleRegion =
     (case vehicleRegion of
        None \<Rightarrow> (real imageWidth / 2, real imageHeight * (3 / 10), real imageWidth * (3 / 10))
      | Some v \<Rightarrow>
          (bb_x (vr_bbox v) + bb_width (vr_bbox v) / 2,
           bb_y (vr_bbox v) + bb_height (vr_bbox v) * (2 / 10),
           bb_width (vr_bbox v) * (3 / 10)))"

definition logoSizes :: "nat \<Rightarrow> real list" where
  "logoSizes imageWidth =
     [real imageWidth * (6 / 100), real imageWidth * (8 / 100), real imageWidth * (1 / 10)]"

text \<open>
  The offsets \<open>dy\<close> and \<open>dx\<close> of the two sampling loops: from \<open>-halfSize\<close> in steps of
  1 while below \<open>halfSize\<close>.
\<close>

definition logo_offsets :: "real \<Rightarrow> real list" where
  "logo_offsets halfSize = map (\<lambda>k. - halfSize + real k) [0..<nat \<lceil>2 * halfSize\<rceil>]"

text \<open>
  The values added to \<open>blobScore\<close> for the circle around \<open>(x, y)\<close>, one for each pixel
  that is counted in \<open>pixelCount\<close>.
\<close>

definition logo_samples ::
  "real list \<Rightarrow> jsnum \<Rightarrow> nat \<Rightarrow> nat \<Rightarrow> real \<Rightarrow> real \<Rightarrow> real \<Rightarrow> jsnum list" where
  "logo_samples responseData maxResponse imageWidth imageHeight halfSize x y =
     concat (map (\<lambda>dy. concat (map (\<lambda>dx.
         if sqrt (dx * dx + dy * dy) > halfSize then []
         else let px = \<lfloor>x + dx\<rfloor>; py = \<lfloor>y + dy\<rfloor>
              in if px < 0 \<or> py < 0 \<or> px \<ge> int imageWidth \<or> py \<ge> int imageHeight then []
                 else [js_div (Num (data_or_zero responseData (py * int imageWidth + px)))
                              maxResponse])
       (logo_offsets halfSize))) (logo_offsets halfSize))"

type_synonym logo_candidate = "BoundingBox \<times> jsnum"

text \<open>The body of the \<open>x\<close> loop, on \<open>bestLogo\<close>.\<close>

definition logo_position ::
  "real list \<Rightarrow> jsnum \<Rightarrow> nat \<Rightarrow> nat \<Rightarrow> real \<Rightarrow> real \<Rightarrow> real
     \<Rightarrow> logo_candidate option \<Rightarrow> logo_candidate option" where
  "logo_position responseData maxResponse imageWidth imageHeight logoSize y x bestLogo =
     (let halfSize = logoSize / 2
      in if x < halfSize \<or> y < halfSize \<or> x > real imageWidth - halfSize
            \<or> y > real imageHeight - halfSize
         then bestLogo
         else
           let samples = logo_samples responseData maxResponse imageWidth imageHeight halfSize x y;
               pixelCount = length samples
           in if pixelCount > 0 then
                let blobScore = js_div (fold (\<lambda>v blobScore. js_add blobScore v) samples (Num 0))
                                       (Num (real pixelCount))
                in if (case bestLogo of None \<Rightarrow> True | Some b \<Rightarrow> js_gt blobScore (snd b))
                   then Some (\<lparr>bb_x = of_int \<lfloor>x - halfSize\<rfloor>, bb_y = of_int \<lfloor>y - halfSize\<rfloor>,
                               bb_width = of_int \<lfloor>logoSize\<rfloor>,
                               bb_height = of_int \<lfloor>logoSize\<rfloor>\<rparr>, blobScore)
                   else bestLogo
              else bestLogo)"

text \<open>The \<open>y\<close> and \<open>x\<close> loops for one logo size.\<close>

definition logo_scan_size ::
  "real list \<Rightarrow> jsnum \<Rightarrow> nat \<Rightarrow> nat \<Rightarrow> real \<times> real \<times> real \<Rightarrow> real
     \<Rightarrow> logo_candidate option \<Rightarrow> logo_candidate option option" where
  "logo_scan_size responseData maxResponse imageWidth imageHeight search logoSize bestLogo =
     (case search of (searchCenterX, searchCenterY, searchRadius) \<Rightarrow>
        for_real (searchCenterY + searchRadius) (logoSize * (5 / 10))
          (\<lambda>y. for_real (searchCenterX + searchRadius) (logoSize * (5 / 10))
             (\<lambda>x best. Some (logo_position responseData maxResponse imageWidth imageHeight
                                logoSize y x best))
             (searchCenterX - searchRadius))
          (searchCenterY - searchRadius) bestLogo)"

fun logo_scan_sizes ::
  "real list \<Rightarrow> jsnum \<Rightarrow> nat \<Rightarrow> nat \<Rightarrow> real \<times> real \<times> real \<Rightarrow> real list
     \<Rightarrow> logo_candidate option \<Rightarrow> logo_candidate option option" where
  "logo_scan_sizes responseData maxResponse imageWidth imageHeight search [] bestLogo = Some bestLogo"
| "logo_scan_sizes responseData maxResponse imageWidth imageHeight search (logoSize # sizes) bestLogo =
     Option.bind (logo_scan_size responseData maxResponse imageWidth imageHeight search logoSize bestLogo)
       (logo_scan_sizes responseData maxResponse imageWidth imageHeight search sizes)"

text \<open>\<open>if (bestLogo && bestLogo.score > 0.1)\<close>.\<close>

definition logo_best :: "logo_candidate option \<Rightarrow> LogoRegion option" where
  "logo_best bestLogo =
     (case bestLogo of
        None \<Rightarrow> None
      | Some b \<Rightarrow>
          if js_gt (snd b) (Num (1 / 10))
          then Some \<lparr>lg_bbox = fst b, lg_confidence = js_min (js_mul (snd b) (Num 3)) (Num (85 / 100))\<rparr>
          else None)"

text \<open>
  \<open>detectLogoRegion\<close>, with the same two options as \<open>detectLicensePlateRegion\<close>.
\<close>

definition detectLogoRegion ::
  "backend \<Rightarrow> image \<Rightarrow> nat \<Rightarrow> nat \<Rightarrow> VehicleRegion option \<Rightarrow> LogoRegion option option" where
  "detectLogoRegion be imageTensor imageWidth imageHeight vehicleRegion =
     (case logo_response be imageTensor of
        Inl e \<Rightarrow> Some None
      | Inr (responseData, maxResponse) \<Rightarrow>
          map_option logo_best
            (logo_scan_sizes responseData maxResponse imageWidth imageHeight
               (logo_search imageWidth imageHeight vehicleRegion) (logoSizes imageWidth) None))"

section \<open>Images without any response\<close>

text \<open>
  Every gradient and Laplacian response of the image is zero, so that the maximum of
  each field is zero.
\<close>

definition zero_response :: "image \<Rightarrow> bool" where
  "zero_response img =
     (set (conv2d_same sobelX (grayscale img) (img_height img) (img_width img)) \<subseteq> {0}
      \<and> set (conv2d_same sobelY (grayscale img) (img_height img) (img_width img)) \<subseteq> {0}
      \<and> set (conv2d_same laplacian (grayscale img) (img_height img) (img_width img)) \<subseteq> {0})"

text \<open>A value that a sum or a quotient of zero responses can take.\<close>

definition zero_or_nan :: "jsnum \<Rightarrow> bool" where
  "zero_or_nan v = (v = NaN \<or> v = Num 0)"

text \<open>The black image and the white image of 8x8 pixels; both are perfectly uniform.\<close>

definition black_image :: image where
  "black_image = \<lparr>img_height = 8, img_width = 8, img_data = replicate 64 (0, 0, 0)\<rparr>"

definition white_image :: image where
  "white_image = \<lparr>img_height = 8, img_width = 8, img_data = replicate 64 (255, 255, 255)\<rparr>"

section \<open>Color classifier\<close>

text \<open>
  The color names of \<open>getColorName\<close>, in the order of its tests: \<open>Trang\<close> (white),
  \<open>Den\<close> (black), \<open>Bac\<close> (silver), \<open>Xam\<close> (gray), \<open>Do\<close> (red), \<open>Cam\<close> (orange),
  \<open>Vang\<close> (yellow), \<open>XanhLa\<close> (green), \<open>XanhNgoc\<close> (teal), \<open>XanhDuong\<close> (blue),
  \<open>Tim\<close> (purple), \<open>Hong\<close> (pink) and \<open>KhongXacDinh\<close> (unknown). The source returns the
  Vietnamese words with their diacritics.
\<close>

datatype color_name =
  Trang | Den | Bac | Xam | Do | Cam | Vang | XanhLa | XanhNgoc | XanhDuong | Tim | Hong
  | KhongXacDinh

record ColorInfo =
  ci_dominant :: string
  ci_name :: color_name
  ci_confidence :: jsnum
  ci_rgb :: "int \<times> int \<times> int"

text \<open>
  \<open>tensor.slice([beginY, beginX, 0], [sizeY, sizeX, 3])\<close>, as the library checks its
  arguments: a size of \<open>-1\<close> stands for the rest of the axis, \<open>extent - begin\<close>, any other
  negative size is refused, and \<open>begin + size\<close> must not exceed the extent; otherwise the
  operation throws. A size of zero is accepted and gives a tensor without elements, and
  so does a rest of the axis that is negative. The result lists the pixels of the slice
  row by row. The begins and sizes index an array: the library says nothing about
  arguments that are not whole numbers, and the model lets the operation throw on them.
\<close>

definition slice_size :: "int \<Rightarrow> int \<Rightarrow> int \<Rightarrow> int option" where
  "slice_size extent start sz =
     (let sz' = (if 0 \<le> sz then Some sz else if sz = - 1 then Some (extent - start) else None)
      in case sz' of
           None \<Rightarrow> None
         | Some n \<Rightarrow> if 0 \<le> start \<and> start + n \<le> extent then Some n else None)"

definition whole :: "real \<Rightarrow> bool" where
  "whole r = (r = of_int \<lfloor>r\<rfloor>)"

definition tf_slice :: "image \<Rightarrow> real \<Rightarrow> real \<Rightarrow> real \<Rightarrow> real \<Rightarrow> tf_error + rgb list" where
  "tf_slice img beginY beginX sizeY sizeX =
     (if whole beginY \<and> whole beginX \<and> whole sizeY \<and> whole sizeX then
        (case (slice_size (int (img_height img)) \<lfloor>beginY\<rfloor> \<lfloor>sizeY\<rfloor>,
               slice_size (int (img_width img)) \<lfloor>beginX\<rfloor> \<lfloor>sizeX\<rfloor>) of
           (Some h, Some w) \<Rightarrow>
             Inr (concat (map (\<lambda>dy. map (\<lambda>dx.
                    img_data img ! ((nat \<lfloor>beginY\<rfloor> + dy) * img_width img + (nat \<lfloor>beginX\<rfloor> + dx)))
                  [0..<nat w]) [0..<nat h]))
         | _ \<Rightarrow> Inl (TfError TfSlice))
      else Inl (TfError TfSlice))"

text \<open>
  The sampled region of \<open>detectVehicleColor\<close>: the pixels read back by
  \<open>cropped.data()\<close> and \<open>pixelCount = regionWidth * regionHeight\<close>.
\<close>

definition color_region ::
  "backend \<Rightarrow> image \<Rightarrow> VehicleRegion option \<Rightarrow> tf_error + rgb list \<times> real" where
  "color_region be imageTensor vehicleRegion =
     (let height = real (img_height imageTensor); width = real (img_width imageTensor)
      in case tf_try be [TfElementwise, TfSlice, TfData] () of
           Inl e \<Rightarrow> Inl e
         | Inr u \<Rightarrow>
            (case vehicleRegion of
               Some v \<Rightarrow>
                 let x = bb_x (vr_bbox v); y = bb_y (vr_bbox v);
                     w = bb_width (vr_bbox v); h = bb_height (vr_bbox v)
                 in (case tf_slice imageTensor (max 0 y) (max 0 x) (min h (height - y)) (min w (width - x)) of
                       Inl e \<Rightarrow> Inl e
                     | Inr regionData \<Rightarrow> Inr (regionData, min w (width - x) * min h (height - y)))
             | None \<Rightarrow>
                 let startY = real_of_int \<lfloor>height * (3 / 10)\<rfloor>;
                     startX = real_of_int \<lfloor>width * (2 / 10)\<rfloor>;
                     cropHeight = real_of_int \<lfloor>height * (4 / 10)\<rfloor>;
                     cropWidth = real_of_int \<lfloor>width * (6 / 10)\<rfloor>
                 in (case tf_slice imageTensor startY startX cropHeight cropWidth of
                       Inl e \<Rightarrow> Inl e
                     | Inr regionData \<Rightarrow> Inr (regionData, cropWidth * cropHeight))))"

text \<open>
  The histogram: an object keyed by the quantized triple, whose keys are enumerated in
  the order of their insertion. A bucket holds \<open>(count, r, g, b)\<close>, the sums of the
  channels of its pixels. The data are the channels divided by 255; each is multiplied
  by 255 and rounded.
\<close>

type_synonym bucket = "int \<times> int \<times> int \<times> int"

fun histogram_add ::
  "int \<times> int \<times> int \<Rightarrow> int \<times> int \<times> int \<Rightarrow> ((int \<times> int \<times> int) \<times> bucket) list
     \<Rightarrow> ((int \<times> int \<times> int) \<times> bucket) list" where
  "histogram_add key (r, g, b) [] = [(key, (1, r, g, b))]"
| "histogram_add key (r, g, b) ((k, (c, sr, sg, sb)) # rest) =
     (if k = key then (k, (c + 1, sr + r, sg + g, sb + b)) # rest
      else (k, (c, sr, sg, sb)) # histogram_add key (r, g, b) rest)"

definition histogram_pixel ::
  "rgb \<Rightarrow> ((int \<times> int \<times> int) \<times> bucket) list \<Rightarrow> ((int \<times> int \<times> int) \<times> bucket) list" where
  "histogram_pixel p colorHistogram =
     (case p of (pr, pg, pb) \<Rightarrow>
        let r = js_round (real pr / 255 * 255);
            g = js_round (real pg / 255 * 255);
            b = js_round (real pb / 255 * 255);
            qr = \<lfloor>real_of_int r / 32\<rfloor> * 32;
            qg = \<lfloor>real_of_int g / 32\<rfloor> * 32;
            qb = \<lfloor>real_of_int b / 32\<rfloor> * 32
        in histogram_add (qr, qg, qb) (r, g, b) colorHistogram)"

text \<open>The scan for the dominant bucket, on \<open>dominantColor = (r, g, b, count)\<close>.\<close>

definition dominant_step ::
  "(int \<times> int \<times> int) \<times> bucket \<Rightarrow> int \<times> int \<times> int \<times> int \<Rightarrow> int \<times> int \<times> int \<times> int" where
  "dominant_step entry dominantColor =
     (case entry of (key, (count, r, g, b)) \<Rightarrow>
      case dominantColor of (dr, dg, db, dcount) \<Rightarrow>
        if count > dcount
        then (js_round (real_of_int r / real_of_int count),
              js_round (real_of_int g / real_of_int count),
              js_round (real_of_int b / real_of_int count), count)
        else dominantColor)"

text \<open>
  \<open>rgbToHsl\<close>. The two divisors of the saturation are positive whenever \<open>max\<close> and \<open>min\<close>
  differ and the channels are not negative, and \<open>d\<close> is positive then.
\<close>

definition rgbToHsl :: "int \<Rightarrow> int \<Rightarrow> int \<Rightarrow> real \<times> real \<times> real" where
  "rgbToHsl r0 g0 b0 =
     (let r = real_of_int r0 / 255; g = real_of_int g0 / 255; b = real_of_int b0 / 255;
          mx = max (max r g) b; mn = min (min r g) b;
          l = (mx + mn) / 2
      in if mx \<noteq> mn then
           let d = mx - mn;
               s = (if l > 5 / 10 then d / (2 - mx - mn) else d / (mx + mn));
               h = (if mx = r then ((g - b) / d + (if g < b then 6 else 0)) / 6
                    else if mx = g then ((b - r) / d + 2) / 6
                    else ((r - g) / d + 4) / 6)
           in (h * 360, s * 100, l * 100)
         else (0 * 360, 0 * 100, l * 100))"

definition js_toString16 :: "int \<Rightarrow> string" where
  "js_toString16 x =
     (if x < 0 then ''-'' @ toString_radix 16 (nat (- x)) else toString_radix 16 (nat x))"

definition rgbToHex :: "int \<Rightarrow> int \<Rightarrow> int \<Rightarrow> string" where
  "rgbToHex r g b =
     ''#'' @ concat (map (\<lambda>x. let hex = js_toString16 x
                               in if length hex = 1 then ''0'' @ hex else hex) [r, g, b])"

definition getColorName :: "real \<Rightarrow> real \<Rightarrow> real \<Rightarrow> color_name" where
  "getColorName h s l =
     (if l \<ge> 85 \<and> s \<le> 15 then Trang
      else if l \<le> 15 then Den
      else if s \<le> 15 \<and> l > 55 \<and> l < 85 then Bac
      else if s \<le> 15 then Xam
      else if (h \<ge> 0 \<and> h \<le> 20) \<or> h \<ge> 340 then Do
      else if h > 20 \<and> h \<le> 45 then Cam
      else if h > 45 \<and> h \<le> 65 then Vang
      else if h > 65 \<and> h \<le> 160 then XanhLa
      else if h > 160 \<and> h \<le> 200 then XanhNgoc
      else if h > 200 \<and> h \<le> 250 then XanhDuong
      else if h > 250 \<and> h \<le> 290 then Tim
      else if h > 290 \<and> h < 340 then Hong
      else KhongXacDinh)"

definition classify_region :: "rgb list \<Rightarrow> real \<Rightarrow> ColorInfo" where
  "classify_region regionData pixelCount =
     (let colorHistogram = fold histogram_pixel regionData [];
          dominantColor = fold dominant_step colorHistogram (0, 0, 0, 0)
      in case dominantColor of (r, g, b, count) \<Rightarrow>
           (case rgbToHsl r g b of (h, s, l) \<Rightarrow>
              \<lparr>ci_dominant = rgbToHex r g b,
               ci_name = getColorName h s l,
               ci_confidence = js_div (Num (real_of_int count)) (Num pixelCount),
               ci_rgb = (r, g, b)\<rparr>))"

text \<open>\<open>detectVehicleColor\<close>: \<open>null\<close> when the tensor code throws.\<close>

definition detectVehicleColor :: "backend \<Rightarrow> image \<Rightarrow> VehicleRegion option \<Rightarrow> ColorInfo option" where
  "detectVehicleColor be imageTensor vehicleRegion =
     (case color_region be imageTensor vehicleRegion of
        Inl e \<Rightarrow> None
      | Inr (regionData, pixelCount) \<Rightarrow> Some (classify_region regionData pixelCount))"

section \<open>Orchestrator\<close>

text \<open>
  \<open>VehicleDetectionService.processImage\<close>. Reading and decoding the file are outside the
  model: their outcome is an argument, an error or the decoded image. The fields \<open>id\<close>,
  \<open>timestamp\<close>, \<open>imageUri\<close>, \<open>imageBase64\<close> and \<open>processingTimeMs\<close> of the result come from
  the clock, the random generator and the file, and are left out. An exception leaves
  \<open>processImage\<close> as a rejected promise: the result is an error or a detection result,
  within the option for a call that does not return.
\<close>

record ProcessingConfig =
  minVehicleConfidence :: real
  minPlateConfidence :: real
  minLogoConfidence :: real
  autoUploadToCloud :: bool
  cloudEndpoint :: string

definition default_config :: ProcessingConfig where
  "default_config =
     \<lparr>minVehicleConfidence = 5 / 10, minPlateConfidence = 4 / 10, minLogoConfidence = 3 / 10,
      autoUploadToCloud = False, cloudEndpoint = ''https://your-cloud-api.com/process''\<rparr>"

datatype upload_status = Pending | Uploading | Uploaded | Failed

datatype processing_error = ServiceNotInitialized | ReadOrDecodeError

record VehicleDetectionResult =
  dr_vehicleRegion :: "VehicleRegion option"
  dr_licensePlate :: "LicensePlateRegion option"
  dr_logoRegion :: "LogoRegion option"
  dr_vehicleColor :: "ColorInfo option"
  dr_imageWidth :: nat
  dr_imageHeight :: nat
  dr_isReadyForCloud :: bool
  dr_cloudUploadStatus :: upload_status

text \<open>
  \<open>!!((vehicleRegion && vehicleRegion.confidence >= minVehicleConfidence) ||
  (licensePlate && licensePlate.confidence >= minPlateConfidence))\<close>.
\<close>

definition ready_for_cloud ::
  "ProcessingConfig \<Rightarrow> VehicleRegion option \<Rightarrow> LicensePlateRegion option \<Rightarrow> bool" where
  "ready_for_cloud config vehicleRegion licensePlate =
     ((case vehicleRegion of
         None \<Rightarrow> False
       | Some v \<Rightarrow> js_ge (vr_confidence v) (Num (minVehicleConfidence config)))
      \<or> (case licensePlate of
            None \<Rightarrow> False
          | Some p \<Rightarrow> js_ge (lp_confidence p) (Num (minPlateConfidence config))))"

text \<open>
  With \<open>autoUploadToCloud\<close>, \<open>uploadToCloud\<close> is started on a ready result; its body has
  no suspension point, so it has set the status to \<open>uploaded\<close> when \<open>processImage\<close>
  returns the result.
\<close>

definition processImage ::
  "ProcessingConfig \<Rightarrow> bool \<Rightarrow> backend \<Rightarrow> processing_error + image
     \<Rightarrow> (processing_error + VehicleDetectionResult) option" where
  "processImage config isInitialized be decoded =
     (if \<not> isInitialized then Some (Inl ServiceNotInitialized)
      else case decoded of
        Inl e \<Rightarrow> Some (Inl e)
      | Inr imageTensor \<Rightarrow>
          let imageHeight = img_height imageTensor; imageWidth = img_width imageTensor;
              vehicleRegion = detectVehicleRegion be imageTensor imageWidth imageHeight
          in Option.bind
               (detectLicensePlateRegion be imageTensor imageWidth imageHeight vehicleRegion)
               (\<lambda>licensePlate.
                  Option.bind
                    (detectLogoRegion be imageTensor imageWidth imageHeight vehicleRegion)
                    (\<lambda>logoRegion.
                       let vehicleColor = detectVehicleColor be imageTensor vehicleRegion;
                           isReadyForCloud = ready_for_cloud config vehicleRegion licensePlate
                       in Some (Inr \<lparr>dr_vehicleRegion = vehicleRegion,
                                     dr_licensePlate = licensePlate,
                                     dr_logoRegion = logoRegion,
                                     dr_vehicleColor = vehicleColor,
                                     dr_imageWidth = imageWidth,
                                     dr_imageHeight = imageHeight,
                                     dr_isReadyForCloud = isReadyForCloud,
                                     dr_cloudUploadStatus =
                                       (if autoUploadToCloud config \<and> isReadyForCloud
                                        then Uploaded else Pending)\<rparr>))))"

text \<open>
  A vehicle region of positive width and height, as the data model requires of every
  bounding box, or no region.
\<close>

definition positive_hint :: "VehicleRegion option \<Rightarrow> bool" where
  "positive_hint vehicleRegion =
     (case vehicleRegion of
        None \<Rightarrow> True
      | Some v \<Rightarrow> 0 < bb_width (vr_bbox v) \<and> 0 < bb_height (vr_bbox v))"

text \<open>A 5x5 image of the color \<open>(26, 26, 46)\<close>, and an image of a single black pixel.\<close>

definition navy_image :: image where
  "navy_image = \<lparr>img_height = 5, img_width = 5, img_data = replicate 25 (26, 26, 46)\<rparr>"

definition one_pixel_image :: image where
  "one_pixel_image = \<lparr>img_height = 1, img_width = 1, img_data = [(0, 0, 0)]\<rparr>"

text \<open>A backend on which every convolution throws.\<close>

definition conv_fails :: backend where
  "conv_fails op = (op = TfConv2d)"

section \<open>Cloud upload with retry\<close>

text \<open>
  \<open>CloudUploadService.upload\<close> resolves to \<open>{success, jobId?, error?}\<close>. The retry loop
  is modelled over any transport: a function from the payload and the transport's state
  to a result and the next state. The sleeps of the exponential backoff are kept as the
  list of delays (in milliseconds) the loop waited for.
\<close>

record upload_result =
  success :: bool
  jobId :: "string option"
  error :: "string option"

type_synonym ('p, 's) transport = "'p \<Rightarrow> 's \<Rightarrow> upload_result \<times> 's"

text \<open>\<open>result.error || 'Unknown error'\<close>: an absent or empty error string is falsy.\<close>

definition error_or_unknown :: "upload_result \<Rightarrow> string" where
  "error_or_unknown r =
     (case error r of None \<Rightarrow> ''Unknown error''
      | Some e \<Rightarrow> if e = [] then ''Unknown error'' else e)"

function uploadWithRetry_loop ::
  "('p, 's) transport \<Rightarrow> 'p \<Rightarrow> nat \<Rightarrow> nat \<Rightarrow> string \<Rightarrow> nat list \<Rightarrow> 's
     \<Rightarrow> upload_result \<times> nat list \<times> 's" where
  "uploadWithRetry_loop upload payload maxRetries attempt lastError delays s =
     (if attempt \<le> maxRetries then
        (case upload payload s of (result, s') \<Rightarrow>
           if success result then (result, delays, s')
           else uploadWithRetry_loop upload payload maxRetries (attempt + 1)
                  (error_or_unknown result)
                  (if attempt < maxRetries then delays @ [2 ^ attempt * 1000] else delays)
                  s')
      else
        (\<lparr>success = False, jobId = None,
          error = Some (''Failed after '' @ toString_radix 10 maxRetries
                          @ '' attempts: '' @ lastError)\<rparr>,
         delays, s))"
  by pat_completeness auto
termination
  by (relation "measure (\<lambda>(upload, payload, maxRetries, attempt, lastError, delays, s).
                    maxRetries + 1 - attempt)") auto

declare uploadWithRetry_loop.simps [simp del]

definition uploadWithRetry ::
  "('p, 's) transport \<Rightarrow> 'p \<Rightarrow> nat \<Rightarrow> 's \<Rightarrow> upload_result \<times> nat list \<times> 's" where
  "uploadWithRetry upload payload maxRetries s =
     uploadWithRetry_loop upload payload maxRetries 1 [] [] s"

text \<open>
  Observations used to state properties of the loop: the transport's state after \<open>k\<close>
  calls of \<open>upload\<close>, and the result of the \<open>k\<close>-th call (counted from 1).
\<close>

primrec state_after :: "('p, 's) transport \<Rightarrow> 'p \<Rightarrow> 's \<Rightarrow> nat \<Rightarrow> 's" where
  "state_after upload payload s 0 = s"
| "state_after upload payload s (Suc k) = snd (upload payload (state_after upload payload s k))"

definition attempt_result :: "('p, 's) transport \<Rightarrow> 'p \<Rightarrow> 's \<Rightarrow> nat \<Rightarrow> upload_result" where
  "attempt_result upload payload s k = fst (upload payload (state_after upload payload s (k - 1)))"

text \<open>
  A transport stub that counts its calls in its state, fails the first two and then
  succeeds, reporting the number of the call in the job id.
\<close>

definition fail_twice :: "(unit, nat) transport" where
  "fail_twice payload n =
     (if n < 2 then (\<lparr>success = False, jobId = None, error = Some ''timeout''\<rparr>, Suc n)
      else (\<lparr>success = True, jobId = Some (''job_'' @ toString_radix 10 (Suc n)), error = None\<rparr>,
            Suc n))"

definition always_fail :: "(unit, nat) transport" where
  "always_fail payload n = (\<lparr>success = False, jobId = None, error = Some ''timeout''\<rparr>, Suc n)"

chapter \<open>Verified properties\<close>

section \<open>Upload with retry\<close>

lemma state_after_step:
  assumes "1 \<le> a" and "upload p (state_after upload p s0 (a - 1)) = (r, s')"
  shows "state_after upload p s0 a = s'" and "attempt_result upload p s0 a = r"
proof -
  from assms(1) obtain b where b: "a = Suc b" by (cases a) auto
  show "state_after upload p s0 a = s'" using assms(2) b by simp
  show "attempt_result upload p s0 a = r" using assms(2) by (simp add: attempt_result_def)
qed

lemma uploadWithRetry_loop_success:
  "1 \<le> a \<Longrightarrow> a \<le> k \<Longrightarrow> k \<le> m \<Longrightarrow>
   \<forall>j. a \<le> j \<and> j < k \<longrightarrow> \<not> success (attempt_result up p s0 j) \<Longrightarrow>
   success (attempt_result up p s0 k) \<Longrightarrow>
   uploadWithRetry_loop up p m a le ds (state_after up p s0 (a - 1))
     = (attempt_result up p s0 k, ds @ map (\<lambda>j. 2 ^ j * 1000) [a..<k], state_after up p s0 k)"
proof (induction "k - a" arbitrary: a le ds)
  case 0
  then have ak: "a = k" by simp
  obtain r s' where u: "up p (state_after up p s0 (k - 1)) = (r, s')"
    by (cases "up p (state_after up p s0 (k - 1))")
  have st: "state_after up p s0 k = s'" "attempt_result up p s0 k = r"
    using state_after_step [of k up p s0 r s'] u 0 ak by auto
  show ?case using 0 ak u st by (subst uploadWithRetry_loop.simps) simp
next
  case (Suc d)
  then have lt: "a < k" by simp
  obtain r s' where u: "up p (state_after up p s0 (a - 1)) = (r, s')"
    by (cases "up p (state_after up p s0 (a - 1))")
  have st: "state_after up p s0 a = s'" "attempt_result up p s0 a = r"
    using state_after_step [of a up p s0 r s'] u Suc.prems(1) by auto
  have nf: "\<not> success r" using Suc.prems lt st by auto
  have IH: "uploadWithRetry_loop up p m (a + 1) (error_or_unknown r) (ds @ [2 ^ a * 1000])
              (state_after up p s0 (a + 1 - 1))
     = (attempt_result up p s0 k,
        (ds @ [2 ^ a * 1000]) @ map (\<lambda>j. 2 ^ j * 1000) [a + 1..<k], state_after up p s0 k)"
    using Suc.hyps(2) Suc.prems lt by (intro Suc.hyps(1)) auto
  have up: "[a..<k] = a # [a + 1..<k]" using lt by (simp add: upt_conv_Cons)
  show ?case using Suc.prems lt u nf IH st up by (subst uploadWithRetry_loop.simps) simp
qed

lemma uploadWithRetry_loop_all_fail:
  "1 \<le> a \<Longrightarrow> a \<le> m \<Longrightarrow>
   \<forall>j. a \<le> j \<and> j \<le> m \<longrightarrow> \<not> success (attempt_result up p s0 j) \<Longrightarrow>
   uploadWithRetry_loop up p m a le ds (state_after up p s0 (a - 1))
     = (\<lparr>success = False, jobId = None,
          error = Some (''Failed after '' @ toString_radix 10 m @ '' attempts: ''
                         @ error_or_unknown (attempt_result up p s0 m))\<rparr>,
        ds @ map (\<lambda>j. 2 ^ j * 1000) [a..<m], state_after up p s0 m)"
proof (induction "m - a" arbitrary: a le ds)
  case 0
  then have am: "a = m" by simp
  obtain r s' where u: "up p (state_after up p s0 (m - 1)) = (r, s')"
    by (cases "up p (state_after up p s0 (m - 1))")
  have m1: "1 \<le> m" using 0 am by simp
  have st: "state_after up p s0 m = s'" "attempt_result up p s0 m = r"
    using state_after_step [of m up p s0 r s'] u m1 by auto
  have nf: "\<not> success r" using 0 am st by auto
  have exit: "uploadWithRetry_loop up p m (m + 1) (error_or_unknown r) ds s'
     = (\<lparr>success = False, jobId = None,
          error = Some (''Failed after '' @ toString_radix 10 m @ '' attempts: ''
                         @ error_or_unknown r)\<rparr>, ds, s')"
    by (subst uploadWithRetry_loop.simps) simp
  show ?case using am u st nf exit by (subst uploadWithRetry_loop.simps) simp
next
  case (Suc d)
  then have lt: "a < m" by simp
  obtain r s' where u: "up p (state_after up p s0 (a - 1)) = (r, s')"
    by (cases "up p (state_after up p s0 (a - 1))")
  have st: "state_after up p s0 a = s'" "attempt_result up p s0 a = r"
    using state_after_step [of a up p s0 r s'] u Suc.prems(1) by auto
  have nf: "\<not> success r" using Suc.prems lt st by auto
  have IH: "uploadWithRetry_loop up p m (a + 1) (error_or_unknown r) (ds @ [2 ^ a * 1000])
              (state_after up p s0 (a + 1 - 1))
     = (\<lparr>success = False, jobId = None,
          error = Some (''Failed after '' @ toString_radix 10 m @ '' attempts: ''
                         @ error_or_unknown (attempt_result up p s0 m))\<rparr>,
       (ds @ [2 ^ a * 1000]) @ map (\<lambda>j. 2 ^ j * 1000) [a + 1..<m], state_after up p s0 m)"
    using Suc.hyps(2) Suc.prems lt by (intro Suc.hyps(1)) auto
  have up: "[a..<m] = a # [a + 1..<m]" using lt by (simp add: upt_conv_Cons)
  show ?case using Suc.prems lt u nf IH st up by (subst uploadWithRetry_loop.simps) simp
qed

lemma uploadWithRetry_fail_twice:
  "uploadWithRetry fail_twice () 3 0
     = (\<lparr>success = True, jobId = Some ''job_3'', error = None\<rparr>, [2000, 4000], 3)"
  by (simp add: uploadWithRetry_def fail_twice_def digit_char_def uploadWithRetry_loop.simps
        toString_radix.simps)

lemma uploadWithRetry_always_fail:
  "uploadWithRetry always_fail () 3 0
     = (\<lparr>success = False, jobId = None, error = Some ''Failed after 3 attempts: timeout''\<rparr>,
        [2000, 4000], 3)"
  by (simp add: uploadWithRetry_def always_fail_def error_or_unknown_def digit_char_def
        uploadWithRetry_loop.simps toString_radix.simps)

text \<open>
  Claim C8. For every payload, transport and \<open>maxRetries \<ge> 1\<close>: if attempt \<open>k \<le> maxRetries\<close>
  is the first one that succeeds, \<open>uploadWithRetry\<close> returns exactly that attempt's result
  (its job id included) and leaves the transport in the state after \<open>k\<close> calls, so no
  further call is made. If all \<open>maxRetries\<close> attempts fail, the transport is left in the
  state after exactly \<open>maxRetries\<close> calls and the result is a failure whose error string is
  \<open>Failed after <maxRetries> attempts: <reason of the last attempt>\<close>. With the stub that
  fails twice and then succeeds and \<open>maxRetries = 3\<close> the third attempt's job id is
  returned after three calls; with the stub that always fails, three calls are made.
\<close>

theorem uploadWithRetry_first_success_or_aggregated_failure:
  assumes "1 \<le> maxRetries"
  shows "(\<forall>k. 1 \<le> k \<and> k \<le> maxRetries \<and> success (attempt_result upload p s k)
              \<and> (\<forall>j. 1 \<le> j \<and> j < k \<longrightarrow> \<not> success (attempt_result upload p s j))
            \<longrightarrow> fst (uploadWithRetry upload p maxRetries s) = attempt_result upload p s k
              \<and> snd (snd (uploadWithRetry upload p maxRetries s)) = state_after upload p s k)
       \<and> ((\<forall>j. 1 \<le> j \<and> j \<le> maxRetries \<longrightarrow> \<not> success (attempt_result upload p s j))
            \<longrightarrow> fst (uploadWithRetry upload p maxRetries s)
                  = \<lparr>success = False, jobId = None,
                     error = Some (''Failed after '' @ toString_radix 10 maxRetries
                                    @ '' attempts: ''
                                    @ error_or_unknown (attempt_result upload p s maxRetries))\<rparr>
              \<and> snd (snd (uploadWithRetry upload p maxRetries s))
                  = state_after upload p s maxRetries)
       \<and> uploadWithRetry fail_twice () 3 0
            = (\<lparr>success = True, jobId = Some ''job_3'', error = None\<rparr>, [2000, 4000], 3)
       \<and> uploadWithRetry always_fail () 3 0
            = (\<lparr>success = False, jobId = None,
                error = Some ''Failed after 3 attempts: timeout''\<rparr>, [2000, 4000], 3)"
proof (intro conjI allI impI)
  fix k
  assume h: "1 \<le> k \<and> k \<le> maxRetries \<and> success (attempt_result upload p s k)
              \<and> (\<forall>j. 1 \<le> j \<and> j < k \<longrightarrow> \<not> success (attempt_result upload p s j))"
  then have eq: "uploadWithRetry upload p maxRetries s
      = (attempt_result upload p s k, [] @ map (\<lambda>j. 2 ^ j * 1000) [1..<k],
         state_after upload p s k)"
    unfolding uploadWithRetry_def
    using uploadWithRetry_loop_success [of 1 k maxRetries upload p s "[]" "[]"] by simp
  show "fst (uploadWithRetry upload p maxRetries s) = attempt_result upload p s k"
    by (simp add: eq)
  show "snd (snd (uploadWithRetry upload p maxRetries s)) = state_after upload p s k"
    by (simp add: eq)
next
  assume h: "\<forall>j. 1 \<le> j \<and> j \<le> maxRetries \<longrightarrow> \<not> success (attempt_result upload p s j)"
  then have eq: "uploadWithRetry upload p maxRetries s
      = (\<lparr>success = False, jobId = None,
           error = Some (''Failed after '' @ toString_radix 10 maxRetries @ '' attempts: ''
                          @ error_or_unknown (attempt_result upload p s maxRetries))\<rparr>,
         [] @ map (\<lambda>j. 2 ^ j * 1000) [1..<maxRetries], state_after upload p s maxRetries)"
    unfolding uploadWithRetry_def
    using uploadWithRetry_loop_all_fail [of 1 maxRetries upload p s "[]" "[]"] assms by simp
  show "fst (uploadWithRetry upload p maxRetries s)
          = \<lparr>success = False, jobId = None,
             error = Some (''Failed after '' @ toString_radix 10 maxRetries @ '' attempts: ''
                            @ error_or_unknown (attempt_result upload p s maxRetries))\<rparr>"
    by (simp add: eq)
  show "snd (snd (uploadWithRetry upload p maxRetries s)) = state_after upload p s maxRetries"
    by (simp add: eq)
next
  show "uploadWithRetry fail_twice () 3 0
          = (\<lparr>success = True, jobId = Some ''job_3'', error = None\<rparr>, [2000, 4000], 3)"
    by (rule uploadWithRetry_fail_twice)
  show "uploadWithRetry always_fail () 3 0
          = (\<lparr>success = False, jobId = None,
              error = Some ''Failed after 3 attempts: timeout''\<rparr>, [2000, 4000], 3)"
    by (rule uploadWithRetry_always_fail)
qed

theorem uploadWithRetry_first_success_or_aggregated_failure_witness:
  "(1::nat) \<le> 3
   \<and> \<not> success (attempt_result fail_twice () 0 1)
   \<and> \<not> success (attempt_result fail_twice () 0 2)
   \<and> success (attempt_result fail_twice () 0 3)
   \<and> jobId (fst (uploadWithRetry fail_twice () 3 0)) = Some ''job_3''
   \<and> snd (snd (uploadWithRetry fail_twice () 3 0)) = 3
   \<and> \<not> success (attempt_result always_fail () 0 1)
   \<and> \<not> success (attempt_result always_fail () 0 2)
   \<and> \<not> success (attempt_result always_fail () 0 3)
   \<and> error (fst (uploadWithRetry always_fail () 3 0)) = Some ''Failed after 3 attempts: timeout''
   \<and> snd (snd (uploadWithRetry always_fail () 3 0)) = 3"
proof -
  have h: "(1::nat) \<le> 3" by simp
  have st: "state_after fail_twice () 0 k = k" for k
    by (induction k) (simp_all add: fail_twice_def)
  have st': "state_after always_fail () 0 k = k" for k
    by (induction k) (simp_all add: always_fail_def)
  have a1: "\<not> success (attempt_result fail_twice () 0 1)"
    and a2: "\<not> success (attempt_result fail_twice () 0 2)"
    and a3: "success (attempt_result fail_twice () 0 3)"
    and j3: "jobId (attempt_result fail_twice () 0 3) = Some ''job_3''"
    by (simp_all add: attempt_result_def st fail_twice_def toString_radix.simps digit_char_def)
  have first: "\<forall>j. 1 \<le> j \<and> j < 3 \<longrightarrow> \<not> success (attempt_result fail_twice () 0 j)"
    by (auto simp add: attempt_result_def st fail_twice_def)
  have af: "\<forall>j. 1 \<le> j \<and> j \<le> 3 \<longrightarrow> \<not> success (attempt_result always_fail () 0 j)"
    by (simp add: attempt_result_def always_fail_def)
  have e3: "error_or_unknown (attempt_result always_fail () 0 3) = ''timeout''"
    by (simp add: attempt_result_def always_fail_def error_or_unknown_def)
  note T1 = uploadWithRetry_first_success_or_aggregated_failure [OF h, of fail_twice "()" 0]
  note T2 = uploadWithRetry_first_success_or_aggregated_failure [OF h, of always_fail "()" 0]
  from T1 a3 first
  have r1: "fst (uploadWithRetry fail_twice () 3 0) = attempt_result fail_twice () 0 3"
       "snd (snd (uploadWithRetry fail_twice () 3 0)) = state_after fail_twice () 0 3"
    by auto
  from T2 af
  have r2: "fst (uploadWithRetry always_fail () 3 0)
              = \<lparr>success = False, jobId = None,
                 error = Some (''Failed after '' @ toString_radix 10 3 @ '' attempts: ''
                                @ error_or_unknown (attempt_result always_fail () 0 3))\<rparr>"
       "snd (snd (uploadWithRetry always_fail () 3 0)) = state_after always_fail () 0 3"
    by auto
  show ?thesis
    using h a1 a2 a3 af
    by (simp add: r1 r2 j3 e3 st st' toString_radix.simps digit_char_def)
qed

section \<open>Vehicle region detector: the scan\<close>

lemma product_Nil_right: "List.product xs [] = []"
  by (induction xs) auto

lemma count_edges_empty:
  "regionWidth = 0 \<or> regionHeight = 0 \<Longrightarrow> count_edges e W H sx sy regionWidth regionHeight = 0"
  by (auto simp: count_edges_def product_Nil_right)

lemma window_density_NaN:
  "W div 8 = 0 \<or> H div 8 = 0 \<Longrightarrow> window_density e W H gx gy = NaN"
  by (auto simp: window_density_def Let_def count_edges_empty)

lemma window_density_Num:
  "0 < W div 8 \<Longrightarrow> 0 < H div 8 \<Longrightarrow> window_density e W H gx gy = Num (density_val e W H (gy, gx))"
  by (simp add: window_density_def Let_def density_val_def)

lemma fold_vehicle_step_NaN:
  "W div 8 = 0 \<or> H div 8 = 0 \<Longrightarrow> fold (vehicle_step e W H) ps mb = mb"
  by (induction ps arbitrary: mb) (auto simp: vehicle_step_def window_density_NaN split: prod.splits)

lemma fold_vehicle_step_Num:
  assumes "0 < W div 8" "0 < H div 8"
  shows "\<exists>m b. fold (vehicle_step e W H) ps (Num m0, b0) = (Num m, b)
           \<and> ((m = m0 \<and> b = b0 \<and> (\<forall>j<length ps. density_val e W H (ps ! j) \<le> m0))
              \<or> (\<exists>i<length ps. m = density_val e W H (ps ! i)
                    \<and> b = grid_window W H (snd (ps ! i)) (fst (ps ! i)) \<and> m0 < m
                    \<and> (\<forall>j<i. density_val e W H (ps ! j) < m)
                    \<and> (\<forall>j<length ps. density_val e W H (ps ! j) \<le> m)))"
proof (induction ps rule: rev_induct)
  case Nil
  then show ?case by simp
next
  case (snoc p ps)
  then obtain m b where fo: "fold (vehicle_step e W H) ps (Num m0, b0) = (Num m, b)"
    and inv: "(m = m0 \<and> b = b0 \<and> (\<forall>j<length ps. density_val e W H (ps ! j) \<le> m0))
              \<or> (\<exists>i<length ps. m = density_val e W H (ps ! i)
                    \<and> b = grid_window W H (snd (ps ! i)) (fst (ps ! i)) \<and> m0 < m
                    \<and> (\<forall>j<i. density_val e W H (ps ! j) < m)
                    \<and> (\<forall>j<length ps. density_val e W H (ps ! j) \<le> m))"
    by blast
  obtain gy gx where p: "p = (gy, gx)" by (cases p)
  let ?d = "density_val e W H p"
  have wd: "window_density e W H gx gy = Num ?d"
    using window_density_Num [OF assms] p by simp
  have bound: "\<forall>j<length ps. density_val e W H (ps ! j) \<le> m"
    using inv by auto
  show ?case
  proof (cases "m < ?d")
    case True
    have st: "fold (vehicle_step e W H) (ps @ [p]) (Num m0, b0) = (Num ?d, grid_window W H gx gy)"
      using fo True wd p by (simp add: vehicle_step_def)
    have m0: "m0 \<le> m" using inv by auto
    have "\<exists>i<length (ps @ [p]). ?d = density_val e W H ((ps @ [p]) ! i)
                    \<and> grid_window W H gx gy = grid_window W H (snd ((ps @ [p]) ! i)) (fst ((ps @ [p]) ! i)) \<and> m0 < ?d
                    \<and> (\<forall>j<i. density_val e W H ((ps @ [p]) ! j) < ?d)
                    \<and> (\<forall>j<length (ps @ [p]). density_val e W H ((ps @ [p]) ! j) \<le> ?d)"
    proof (intro exI [of _ "length ps"] conjI allI impI)
      show "length ps < length (ps @ [p])" by simp
      show "?d = density_val e W H ((ps @ [p]) ! length ps)" by simp
      show "grid_window W H gx gy = grid_window W H (snd ((ps @ [p]) ! length ps)) (fst ((ps @ [p]) ! length ps))"
        using p by simp
      show "m0 < ?d" using m0 True by simp
    next
      fix j assume "j < length ps"
      then show "density_val e W H ((ps @ [p]) ! j) < ?d"
        using bound True by (auto simp: nth_append)
    next
      fix j assume "j < length (ps @ [p])"
      then show "density_val e W H ((ps @ [p]) ! j) \<le> ?d"
        using bound True by (cases "j < length ps") (force simp: nth_append less_Suc_eq)+
    qed
    with st show ?thesis by blast
  next
    case False
    have st: "fold (vehicle_step e W H) (ps @ [p]) (Num m0, b0) = (Num m, b)"
      using fo False wd p by (simp add: vehicle_step_def)
    have bound': "\<forall>j<length (ps @ [p]). density_val e W H ((ps @ [p]) ! j) \<le> m"
      using bound False by (auto simp: nth_append less_Suc_eq)
    from inv show ?thesis
    proof
      assume a: "m = m0 \<and> b = b0 \<and> (\<forall>j<length ps. density_val e W H (ps ! j) \<le> m0)"
      then show ?thesis using st bound' by auto
    next
      assume "\<exists>i<length ps. m = density_val e W H (ps ! i)
                    \<and> b = grid_window W H (snd (ps ! i)) (fst (ps ! i)) \<and> m0 < m
                    \<and> (\<forall>j<i. density_val e W H (ps ! j) < m)
                    \<and> (\<forall>j<length ps. density_val e W H (ps ! j) \<le> m)"
      then obtain i where i: "i < length ps" "m = density_val e W H (ps ! i)"
         "b = grid_window W H (snd (ps ! i)) (fst (ps ! i))" "m0 < m"
         "\<forall>j<i. density_val e W H (ps ! j) < m" by blast
      have "\<exists>i<length (ps @ [p]). m = density_val e W H ((ps @ [p]) ! i)
                    \<and> b = grid_window W H (snd ((ps @ [p]) ! i)) (fst ((ps @ [p]) ! i)) \<and> m0 < m
                    \<and> (\<forall>j<i. density_val e W H ((ps @ [p]) ! j) < m)
                    \<and> (\<forall>j<length (ps @ [p]). density_val e W H ((ps @ [p]) ! j) \<le> m)"
        using i bound' by (intro exI [of _ i]) (auto simp: nth_append)
      with st show ?thesis by blast
    qed
  qed
qed

lemma grid_positions_nth:
  "j < 36 \<Longrightarrow> grid_positions ! j = (j div 6, j mod 6)"
  by (simp add: grid_positions_def product_nth)

lemma length_grid_positions: "length grid_positions = 36"
  by (simp add: grid_positions_def)

lemma vehicle_scan_Some:
  assumes "vehicle_scan e W H = Some v"
  shows "0 < W div 8 \<and> 0 < H div 8 \<and>
    (\<exists>gy<6. \<exists>gx<6. vr_bbox v = grid_window W H gx gy
       \<and> vr_confidence v = js_min (js_mul (window_density e W H gx gy) (Num 5)) (Num (95 / 100))
       \<and> js_gt (window_density e W H gx gy) (Num (5 / 100))
       \<and> (\<forall>gy'<6. \<forall>gx'<6. \<not> js_gt (window_density e W H gx' gy') (window_density e W H gx gy))
       \<and> (\<forall>gy'<6. \<forall>gx'<6. gy' < gy \<or> (gy' = gy \<and> gx' < gx)
             \<longrightarrow> js_gt (window_density e W H gx gy) (window_density e W H gx' gy')))"
proof -
  have cells: "0 < W div 8 \<and> 0 < H div 8"
  proof (rule ccontr)
    assume "\<not> (0 < W div 8 \<and> 0 < H div 8)"
    then have "W div 8 = 0 \<or> H div 8 = 0" by auto
    then have "vehicle_scan e W H = None"
      by (simp add: vehicle_scan_def fold_vehicle_step_NaN)
    with assms show False by simp
  qed
  then have cw: "0 < W div 8" and ch: "0 < H div 8" by auto
  note wd = window_density_Num [OF cw ch]
  from fold_vehicle_step_Num [OF cw ch, of e grid_positions 0
         "\<lparr>bb_x = 0, bb_y = 0, bb_width = 0, bb_height = 0\<rparr>"]
  obtain m b where fo: "fold (vehicle_step e W H) grid_positions
        (Num 0, \<lparr>bb_x = 0, bb_y = 0, bb_width = 0, bb_height = 0\<rparr>) = (Num m, b)"
    and inv: "(m = 0 \<and> b = \<lparr>bb_x = 0, bb_y = 0, bb_width = 0, bb_height = 0\<rparr>
                \<and> (\<forall>j<length grid_positions. density_val e W H (grid_positions ! j) \<le> 0))
              \<or> (\<exists>i<length grid_positions. m = density_val e W H (grid_positions ! i)
                    \<and> b = grid_window W H (snd (grid_positions ! i)) (fst (grid_positions ! i)) \<and> 0 < m
                    \<and> (\<forall>j<i. density_val e W H (grid_positions ! j) < m)
                    \<and> (\<forall>j<length grid_positions. density_val e W H (grid_positions ! j) \<le> m))"
    by blast
  from assms fo have big: "5 / 100 < m"
    and v: "vr_bbox v = b" "vr_confidence v = js_min (js_mul (Num m) (Num 5)) (Num (95 / 100))"
    by (auto simp: vehicle_scan_def Let_def split: if_splits)
  from inv big obtain i where i: "i < 36" "m = density_val e W H (grid_positions ! i)"
      "b = grid_window W H (snd (grid_positions ! i)) (fst (grid_positions ! i))"
      "\<forall>j<i. density_val e W H (grid_positions ! j) < m"
      "\<forall>j<36. density_val e W H (grid_positions ! j) \<le> m"
    by (auto simp: length_grid_positions)
  let ?gy = "i div 6" and ?gx = "i mod 6"
  have pi: "grid_positions ! i = (?gy, ?gx)" using i(1) by (rule grid_positions_nth)
  have wdi: "window_density e W H ?gx ?gy = Num m" using wd i(2) pi by simp
  have idx: "gy' * 6 + gx' < 36 \<and> grid_positions ! (gy' * 6 + gx') = (gy', gx')"
    if "gy' < 6" "gx' < 6" for gy' gx'
  proof -
    have lt: "gy' * 6 + gx' < 36" using that by simp
    show ?thesis using grid_positions_nth [OF lt] that lt by simp
  qed
  have "\<forall>gy'<6. \<forall>gx'<6. \<not> js_gt (window_density e W H gx' gy') (window_density e W H ?gx ?gy)"
  proof (intro allI impI)
    fix gy' gx' :: nat assume a: "gy' < 6" "gx' < 6"
    from idx [OF a] i(5) have "density_val e W H (gy', gx') \<le> m" by (metis)
    then show "\<not> js_gt (window_density e W H gx' gy') (window_density e W H ?gx ?gy)"
      by (simp add: wd wdi [unfolded wd])
  qed
  moreover
  have "\<forall>gy'<6. \<forall>gx'<6. gy' < ?gy \<or> (gy' = ?gy \<and> gx' < ?gx)
             \<longrightarrow> js_gt (window_density e W H ?gx ?gy) (window_density e W H gx' gy')"
  proof (intro allI impI)
    fix gy' gx' :: nat assume a: "gy' < 6" "gx' < 6" and b: "gy' < ?gy \<or> (gy' = ?gy \<and> gx' < ?gx)"
    have dm: "i = ?gy * 6 + ?gx" by simp
    have "gy' * 6 + gx' < i" using a b dm by arith
    with idx [OF a] i(4) have "density_val e W H (gy', gx') < m" by metis
    then show "js_gt (window_density e W H ?gx ?gy) (window_density e W H gx' gy')"
      by (simp add: wd wdi [unfolded wd])
  qed
  moreover have "?gy < 6" "?gx < 6" using i(1) by auto
  moreover have "vr_bbox v = grid_window W H ?gx ?gy" using v i(3) pi by simp
  moreover have "vr_confidence v = js_min (js_mul (window_density e W H ?gx ?gy) (Num 5)) (Num (95 / 100))"
    using v wdi by simp
  moreover have "js_gt (window_density e W H ?gx ?gy) (Num (5 / 100))" using wdi big by simp
  ultimately show ?thesis using cells by blast
qed

lemma vehicle_scan_None:
  assumes "vehicle_scan e W H = None" "gy < 6" "gx < 6"
  shows "\<not> js_gt (window_density e W H gx gy) (Num (5 / 100))"
proof (cases "0 < W div 8 \<and> 0 < H div 8")
  case False
  then have "window_density e W H gx gy = NaN" by (intro window_density_NaN) auto
  then show ?thesis by simp
next
  case True
  then have cw: "0 < W div 8" and ch: "0 < H div 8" by auto
  note wd = window_density_Num [OF cw ch]
  from fold_vehicle_step_Num [OF cw ch, of e grid_positions 0
         "\<lparr>bb_x = 0, bb_y = 0, bb_width = 0, bb_height = 0\<rparr>"]
  obtain m b where fo: "fold (vehicle_step e W H) grid_positions
        (Num 0, \<lparr>bb_x = 0, bb_y = 0, bb_width = 0, bb_height = 0\<rparr>) = (Num m, b)"
    and inv: "\<forall>j<length grid_positions. density_val e W H (grid_positions ! j) \<le> m"
    by blast
  from assms(1) fo have small: "m \<le> 5 / 100"
    by (auto simp: vehicle_scan_def Let_def split: if_splits)
  have lt: "gy * 6 + gx < 36" using assms by simp
  have "grid_positions ! (gy * 6 + gx) = (gy, gx)"
    using grid_positions_nth [OF lt] assms by simp
  with inv lt have "density_val e W H (gy, gx) \<le> m" by (metis length_grid_positions)
  with small show ?thesis by (simp add: wd)
qed

section \<open>Vehicle region detector: the threshold mask\<close>

lemma gradient_magnitude_sqrt: "gradient_magnitude img = map sqrt (sq_magnitude img)"
  by (simp add: gradient_magnitude_def sq_magnitude_def Let_def split_def)

lemma sq_magnitude_nonneg: "q \<in> set (sq_magnitude img) \<Longrightarrow> 0 \<le> q"
  by (auto simp: sq_magnitude_def Let_def split_def)

lemma Max_sqrt: "xs \<noteq> [] \<Longrightarrow> Max (set (map sqrt xs)) = sqrt (Max (set xs))"
  using mono_Max_commute [of sqrt "set xs"] by (simp add: mono_def)

lemma threshold_sqrt: "0 \<le> q \<Longrightarrow> q \<le> M \<Longrightarrow>
   js_gt (js_div (Num (sqrt q)) (Num (sqrt M))) (Num (15 / 100)) = (0 < M \<and> (15 / 100)\<^sup>2 * M < q)"
proof (cases "M = 0")
  case True
  assume "0 \<le> q" "q \<le> M"
  with True have "q = 0" by simp
  with True show ?thesis by simp
next
  case False
  assume a: "0 \<le> q" "q \<le> M"
  with False have M: "0 < M" by simp
  have "(15 / 100 < sqrt q / sqrt M) = (15 / 100 * sqrt M < sqrt q)"
    using M by (simp add: pos_less_divide_eq)
  also have "\<dots> = (sqrt ((15 / 100)\<^sup>2 * M) < sqrt q)"
    by (simp add: real_sqrt_mult)
  also have "\<dots> = ((15 / 100)\<^sup>2 * M < q)" by simp
  finally show ?thesis using M by simp
qed

lemma vehicle_edges_healthy: "vehicle_edges healthy img = Inr (sq_mask img)"
proof (cases "sq_magnitude img = []")
  case True
  then show ?thesis
    by (simp add: vehicle_edges_def tf_try_def healthy_def normalized_magnitude_def gradient_magnitude_sqrt sq_mask_def)
next
  case False
  let ?M = "Max (set (sq_magnitude img))"
  have mx: "tf_max (map sqrt (sq_magnitude img)) = Num (sqrt ?M)"
    using False Max_sqrt [OF False] by (simp add: tf_max_def)
  have "js_gt (js_div (Num (sqrt q)) (Num (sqrt ?M))) (Num (15 / 100))
      = (0 < ?M \<and> (15 / 100)\<^sup>2 * ?M < q)"
    if "q \<in> set (sq_magnitude img)" for q
    using that by (intro threshold_sqrt sq_magnitude_nonneg [OF that]) simp
  then have "map (\<lambda>q. js_gt (js_div (Num (sqrt q)) (Num (sqrt ?M))) (Num (15 / 100))) (sq_magnitude img)
      = map (\<lambda>q. 0 < ?M \<and> (15 / 100)\<^sup>2 * ?M < q) (sq_magnitude img)"
    by (intro map_cong) auto
  then show ?thesis using False
    by (simp add: vehicle_edges_def tf_try_def healthy_def normalized_magnitude_def gradient_magnitude_sqrt sq_mask_def
          Let_def mx comp_def)
qed

section \<open>Vehicle region detector: a concrete image\<close>

lemma corner_grayscale: "grayscale corner_image = replicate 63 0 @ [255]"
  by (simp add: grayscale_def corner_image_def)

lemma corner_gradX:
  "conv2d_same sobelX (replicate 63 0 @ [255]) 8 8 = replicate 54 0 @ [255] @ replicate 7 0 @ [510, 0]"
  by code_simp

lemma corner_gradY:
  "conv2d_same sobelY (replicate 63 0 @ [255]) 8 8 = replicate 54 0 @ [255, 510] @ replicate 8 0"
  by code_simp

lemma corner_dims: "img_height corner_image = 8" "img_width corner_image = 8"
  by (simp_all add: corner_image_def)

lemma corner_squares:
  "map (\<lambda>(gx, gy). gx\<^sup>2 + gy\<^sup>2)
     (zip (replicate 54 0 @ [255] @ replicate 7 0 @ [510, 0])
          (replicate 54 0 @ [255, 510] @ replicate 8 0))
   = replicate 54 0 @ [130050, 260100] @ replicate 6 0 @ [260100, 0 :: real]"
  by code_simp

lemma corner_sq_magnitude:
  "sq_magnitude corner_image = replicate 54 0 @ [130050, 260100] @ replicate 6 0 @ [260100, 0]"
  unfolding sq_magnitude_def Let_def corner_grayscale corner_dims corner_gradX corner_gradY
  by (rule corner_squares)

lemma corner_sq_mask: "sq_mask corner_image = corner_mask"
  unfolding sq_mask_def Let_def corner_sq_magnitude corner_mask_def by code_simp

lemma corner_vehicle_scan:
  "vehicle_scan corner_mask 8 8
     = Some \<lparr>vr_type = Rear, vr_bbox = \<lparr>bb_x = 5, bb_y = 5, bb_width = 3, bb_height = 3\<rparr>,
             vr_confidence = Num (95 / 100)\<rparr>"
  by code_simp

lemma corner_detectVehicleRegion:
  "detectVehicleRegion healthy corner_image 8 8
     = Some \<lparr>vr_type = Rear, vr_bbox = \<lparr>bb_x = 5, bb_y = 5, bb_width = 3, bb_height = 3\<rparr>,
             vr_confidence = Num (95 / 100)\<rparr>"
  by (simp add: detectVehicleRegion_def vehicle_edges_healthy corner_sq_mask corner_vehicle_scan)

section \<open>Vehicle region detector: grid positions and bounding box\<close>

text \<open>
  Claim C5 (amended). The scan of \<open>detectVehicleRegion\<close> evaluates the 3x3-cell windows at
  the grid positions \<open>(gx, gy)\<close> with \<open>gx\<close> and \<open>gy\<close> below \<open>gridSize - 2 = 6\<close>, and at no
  other position: a region that is returned is one of these 36 windows, no window of the
  36 has a greater density, every window before it in row-major order (\<open>gy\<close> outer,
  \<open>gx\<close> inner) has a strictly smaller density, and nothing is returned only if none of
  the 36 densities exceeds \<open>0.05\<close>.
\<close>

theorem detectVehicleRegion_scans_six_by_six_windows:
  assumes "vehicle_edges be img = Inr edgeData"
  shows "(\<forall>v. detectVehicleRegion be img W H = Some v \<longrightarrow>
            (\<exists>gy<8 - 2. \<exists>gx<8 - 2. vr_bbox v = grid_window W H gx gy
               \<and> js_gt (window_density edgeData W H gx gy) (Num (5 / 100))
               \<and> (\<forall>gy'<8 - 2. \<forall>gx'<8 - 2.
                     \<not> js_gt (window_density edgeData W H gx' gy')
                              (window_density edgeData W H gx gy))
               \<and> (\<forall>gy'<8 - 2. \<forall>gx'<8 - 2. gy' < gy \<or> (gy' = gy \<and> gx' < gx) \<longrightarrow>
                     js_gt (window_density edgeData W H gx gy)
                           (window_density edgeData W H gx' gy'))))
       \<and> (detectVehicleRegion be img W H = None \<longrightarrow>
            (\<forall>gy<8 - 2. \<forall>gx<8 - 2. \<not> js_gt (window_density edgeData W H gx gy) (Num (5 / 100))))"
proof (intro conjI allI impI)
  fix v assume "detectVehicleRegion be img W H = Some v"
  then have "vehicle_scan edgeData W H = Some v"
    using assms by (simp add: detectVehicleRegion_def)
  from vehicle_scan_Some [OF this]
  show "\<exists>gy<8 - 2. \<exists>gx<8 - 2. vr_bbox v = grid_window W H gx gy
               \<and> js_gt (window_density edgeData W H gx gy) (Num (5 / 100))
               \<and> (\<forall>gy'<8 - 2. \<forall>gx'<8 - 2.
                     \<not> js_gt (window_density edgeData W H gx' gy')
                              (window_density edgeData W H gx gy))
               \<and> (\<forall>gy'<8 - 2. \<forall>gx'<8 - 2. gy' < gy \<or> (gy' = gy \<and> gx' < gx) \<longrightarrow>
                     js_gt (window_density edgeData W H gx gy)
                           (window_density edgeData W H gx' gy'))"
    by simp blast
next
  fix gy gx :: nat
  assume "detectVehicleRegion be img W H = None" "gy < 8 - 2" "gx < 8 - 2"
  then show "\<not> js_gt (window_density edgeData W H gx gy) (Num (5 / 100))"
    using assms vehicle_scan_None [of edgeData W H gy gx] by (simp add: detectVehicleRegion_def)
qed

theorem detectVehicleRegion_scans_six_by_six_windows_witness:
  "vehicle_edges healthy corner_image = Inr corner_mask
   \<and> detectVehicleRegion healthy corner_image 8 8
       = Some \<lparr>vr_type = Rear, vr_bbox = grid_window 8 8 5 5, vr_confidence = Num (95 / 100)\<rparr>
   \<and> (\<exists>gy<8 - 2. \<exists>gx<8 - 2. grid_window 8 8 5 5 = grid_window 8 8 gx gy
         \<and> js_gt (window_density corner_mask 8 8 gx gy) (Num (5 / 100))
         \<and> (\<forall>gy'<8 - 2. \<forall>gx'<8 - 2.
               \<not> js_gt (window_density corner_mask 8 8 gx' gy') (window_density corner_mask 8 8 gx gy))
         \<and> (\<forall>gy'<8 - 2. \<forall>gx'<8 - 2. gy' < gy \<or> (gy' = gy \<and> gx' < gx) \<longrightarrow>
               js_gt (window_density corner_mask 8 8 gx gy) (window_density corner_mask 8 8 gx' gy')))"
proof -
  have e: "vehicle_edges healthy corner_image = Inr corner_mask"
    by (simp add: vehicle_edges_healthy corner_sq_mask)
  have d: "detectVehicleRegion healthy corner_image 8 8
       = Some \<lparr>vr_type = Rear, vr_bbox = grid_window 8 8 5 5, vr_confidence = Num (95 / 100)\<rparr>"
    by (simp add: corner_detectVehicleRegion grid_window_def)
  from detectVehicleRegion_scans_six_by_six_windows [OF e, of 8 8] d
  show ?thesis using e by simp
qed

theorem detectVehicleRegion_window_at_position_five_counterexample:
  "detectVehicleRegion healthy corner_image 8 8
     = Some \<lparr>vr_type = Rear, vr_bbox = grid_window 8 8 5 5, vr_confidence = Num (95 / 100)\<rparr>
   \<and> \<not> (5 :: nat) < 8 - 3
   \<and> grid_window 8 8 5 5
       \<notin> set (map (\<lambda>(gy, gx). grid_window 8 8 gx gy) (List.product [0..<8 - 3] [0..<8 - 3]))"
proof -
  have "grid_window 8 8 5 5
       \<notin> set (map (\<lambda>(gy, gx). grid_window 8 8 gx gy) (List.product [0..<8 - 3] [0..<8 - 3]))"
    by (auto simp: grid_window_def)
  then show ?thesis by (simp add: corner_detectVehicleRegion grid_window_def)
qed

text \<open>
  Claim C10. A vehicle region that \<open>detectVehicleRegion\<close> emits for width \<open>W\<close> and height
  \<open>H\<close> has the size \<open>3 * (W div 8)\<close> by \<open>3 * (H div 8)\<close>, both positive, its \<open>x\<close> is a
  multiple \<open>gx * (W div 8)\<close> with \<open>gx \<le> 5\<close> and its \<open>y\<close> a multiple \<open>gy * (H div 8)\<close> with
  \<open>gy \<le> 5\<close>, and the box lies within the image; for \<open>W < 8\<close> or \<open>H < 8\<close> nothing is
  emitted.
\<close>

theorem detectVehicleRegion_bbox_on_grid_within_image:
  "(\<forall>v. detectVehicleRegion be img W H = Some v \<longrightarrow>
       bb_width (vr_bbox v) = 3 * real (W div 8) \<and> bb_height (vr_bbox v) = 3 * real (H div 8)
     \<and> 0 < bb_width (vr_bbox v) \<and> 0 < bb_height (vr_bbox v)
     \<and> (\<exists>gx\<le>5. bb_x (vr_bbox v) = real gx * real (W div 8))
     \<and> (\<exists>gy\<le>5. bb_y (vr_bbox v) = real gy * real (H div 8))
     \<and> 0 \<le> bb_x (vr_bbox v) \<and> bb_x (vr_bbox v) \<le> 5 * real (W div 8)
     \<and> 0 \<le> bb_y (vr_bbox v) \<and> bb_y (vr_bbox v) \<le> 5 * real (H div 8)
     \<and> bb_x (vr_bbox v) + bb_width (vr_bbox v) \<le> real W
     \<and> bb_y (vr_bbox v) + bb_height (vr_bbox v) \<le> real H)
   \<and> (W < 8 \<or> H < 8 \<longrightarrow> detectVehicleRegion be img W H = None)"
proof (intro conjI allI impI)
  fix v assume a: "detectVehicleRegion be img W H = Some v"
  then obtain edgeData where "vehicle_scan edgeData W H = Some v"
    by (auto simp: detectVehicleRegion_def split: sum.splits)
  from vehicle_scan_Some [OF this] obtain gy gx where
    g: "gy < 6" "gx < 6" "vr_bbox v = grid_window W H gx gy" and c: "0 < W div 8" "0 < H div 8"
    by blast
  have "real (8 * (W div 8)) \<le> real W" "real (8 * (H div 8)) \<le> real H"
    by (intro of_nat_mono, simp)+
  then have w8: "8 * real (W div 8) \<le> real W" and h8: "8 * real (H div 8) \<le> real H"
    by simp_all
  have gxw: "real gx * real (W div 8) \<le> 5 * real (W div 8)"
    using g(2) by (intro mult_right_mono) auto
  have gyh: "real gy * real (H div 8) \<le> 5 * real (H div 8)"
    using g(1) by (intro mult_right_mono) auto
  have bx: "bb_x (vr_bbox v) = real gx * real (W div 8)" "bb_width (vr_bbox v) = 3 * real (W div 8)"
    and boxy: "bb_y (vr_bbox v) = real gy * real (H div 8)" "bb_height (vr_bbox v) = 3 * real (H div 8)"
    using g(3) by (simp_all add: grid_window_def)
  show "bb_width (vr_bbox v) = 3 * real (W div 8)" using g by (simp add: grid_window_def)
  show "bb_height (vr_bbox v) = 3 * real (H div 8)" using g by (simp add: grid_window_def)
  show "0 < bb_width (vr_bbox v)" using g c by (simp add: grid_window_def)
  show "0 < bb_height (vr_bbox v)" using g c by (simp add: grid_window_def)
  show "\<exists>gx\<le>5. bb_x (vr_bbox v) = real gx * real (W div 8)"
    using g by (intro exI [of _ gx]) (simp add: grid_window_def)
  show "\<exists>gy\<le>5. bb_y (vr_bbox v) = real gy * real (H div 8)"
    using g by (intro exI [of _ gy]) (simp add: grid_window_def)
  show "0 \<le> bb_x (vr_bbox v)" using g by (simp add: grid_window_def)
  show "0 \<le> bb_y (vr_bbox v)" using g by (simp add: grid_window_def)
  show "bb_x (vr_bbox v) \<le> 5 * real (W div 8)" using gxw unfolding bx .
  show "bb_y (vr_bbox v) \<le> 5 * real (H div 8)" using gyh unfolding boxy .
  show "bb_x (vr_bbox v) + bb_width (vr_bbox v) \<le> real W"
    using gxw w8 unfolding bx by linarith
  show "bb_y (vr_bbox v) + bb_height (vr_bbox v) \<le> real H"
    using gyh h8 unfolding boxy by linarith
next
  assume s: "W < 8 \<or> H < 8"
  show "detectVehicleRegion be img W H = None"
  proof (cases "detectVehicleRegion be img W H")
    case None then show ?thesis .
  next
    case (Some v)
    then obtain edgeData where "vehicle_scan edgeData W H = Some v"
      by (auto simp: detectVehicleRegion_def split: sum.splits)
    from vehicle_scan_Some [OF this] have "0 < W div 8" "0 < H div 8" by blast+
    with s show ?thesis by auto
  qed
qed

theorem detectVehicleRegion_bbox_on_grid_within_image_witness:
  "detectVehicleRegion healthy corner_image 8 8
       = Some \<lparr>vr_type = Rear, vr_bbox = \<lparr>bb_x = 5, bb_y = 5, bb_width = 3, bb_height = 3\<rparr>,
               vr_confidence = Num (95 / 100)\<rparr>
   \<and> (5 :: real) + 3 \<le> real 8
   \<and> ((7 :: nat) < 8 \<or> (8 :: nat) < 8)
   \<and> detectVehicleRegion healthy corner_image 7 8 = None"
  using detectVehicleRegion_bbox_on_grid_within_image [of healthy corner_image 8 8]
    detectVehicleRegion_bbox_on_grid_within_image [of healthy corner_image 7 8]
  by (simp add: corner_detectVehicleRegion)

section \<open>Loops over a real-valued position\<close>

lemma loop_positions_stop: "0 < step \<Longrightarrow> \<not> v < bound \<Longrightarrow> loop_positions v bound step = []"
proof -
  assume a: "0 < step" "\<not> v < bound"
  then have "(bound - v) / step \<le> 0" by (simp add: divide_le_0_iff)
  then have "\<lceil>(bound - v) / step\<rceil> \<le> 0" by (simp add: ceiling_le_iff)
  then show ?thesis by (simp add: loop_positions_def)
qed

lemma loop_positions_step:
  assumes "0 < step" "v < bound"
  shows "loop_positions v bound step = v # loop_positions (v + step) bound step"
proof -
  let ?n = "nat \<lceil>(bound - v) / step\<rceil>"
  have pos: "0 < (bound - v) / step" using assms by simp
  then have "0 < \<lceil>(bound - v) / step\<rceil>" by (simp add: less_ceiling_iff)
  then obtain m where m: "?n = Suc m" by (cases ?n) auto
  have "(bound - (v + step)) / step = (bound - v) / step - 1"
    using assms by (simp add: field_simps)
  then have "\<lceil>(bound - (v + step)) / step\<rceil> = \<lceil>(bound - v) / step\<rceil> - 1" by simp
  then have n': "nat \<lceil>(bound - (v + step)) / step\<rceil> = m" using m by simp
  have "map (\<lambda>k. v + real k * step) [0..<Suc m]
      = v # map (\<lambda>k. v + step + real k * step) [0..<m]"
    by (simp add: upt_conv_Cons map_Suc_upt [symmetric] algebra_simps del: upt_Suc)
  then show ?thesis by (simp add: loop_positions_def m n' del: upt_Suc)
qed

lemma for_real_total:
  assumes "0 < step" and body: "\<And>v s. body v s = Some (f v s)"
  shows "for_real bound step body v s = Some (fold f (loop_positions v bound step) s)"
proof (induction "nat \<lceil>(bound - v) / step\<rceil>" arbitrary: v s)
  case 0
  then have "\<lceil>(bound - v) / step\<rceil> \<le> 0" by simp
  then have "(bound - v) / step \<le> 0" by (simp add: ceiling_le_iff)
  then have nb: "\<not> v < bound" using assms(1) by (simp add: divide_le_0_iff)
  show ?case using nb loop_positions_stop [OF assms(1) nb]
    by (subst for_real.simps) simp
next
  case (Suc n)
  then have "0 < \<lceil>(bound - v) / step\<rceil>" by linarith
  then have "0 < (bound - v) / step" by (simp add: less_ceiling_iff)
  then have lt: "v < bound" using assms(1) by (simp add: zero_less_divide_iff)
  have "(bound - (v + step)) / step = (bound - v) / step - 1"
    using assms(1) by (simp add: field_simps)
  then have "\<lceil>(bound - (v + step)) / step\<rceil> = \<lceil>(bound - v) / step\<rceil> - 1" by simp
  then have "n = nat \<lceil>(bound - (v + step)) / step\<rceil>" using Suc.hyps(2) by simp
  from Suc.hyps(1) [OF this]
  have IH: "for_real bound step body (v + step) (f v s)
              = Some (fold f (loop_positions (v + step) bound step) (f v s))" .
  show ?case using lt IH loop_positions_step [OF assms(1) lt]
    by (subst for_real.simps) (simp add: body)
qed

lemma fold_append_concat: "fold (\<lambda>x cs. cs @ g x) xs cs = cs @ concat (map g xs)"
  by (induction xs arbitrary: cs) auto

lemma plate_scan_size_total:
  assumes "0 < w" "0 < h"
  shows "plate_scan_size ed mx W (sx, sy, ex, ey) (w, h) cs
     = Some (cs @ concat (map (\<lambda>y. concat (map (\<lambda>x. plate_window ed mx W w h x y)
                                  (loop_positions sx (ex - w) (w * (3 / 10)))))
                        (loop_positions sy (ey - h) (h * (5 / 10)))))"
proof -
  have sx: "0 < w * (3 / 10)" and sy: "0 < h * (5 / 10)" using assms by simp_all
  have inner: "for_real (ex - w) (w * (3 / 10)) (\<lambda>x cs. Some (cs @ plate_window ed mx W w h x y)) sx cs
      = Some ((\<lambda>y cs. cs @ concat (map (\<lambda>x. plate_window ed mx W w h x y)
                  (loop_positions sx (ex - w) (w * (3 / 10))))) y cs)" for y cs
  proof -
    have "for_real (ex - w) (w * (3 / 10)) (\<lambda>x cs. Some (cs @ plate_window ed mx W w h x y)) sx cs
       = Some (fold (\<lambda>x cs. cs @ plate_window ed mx W w h x y)
                 (loop_positions sx (ex - w) (w * (3 / 10))) cs)"
      by (rule for_real_total [OF sx]) simp
    then show ?thesis by (simp add: fold_append_concat)
  qed
  have "for_real (ey - h) (h * (5 / 10))
          (\<lambda>y. for_real (ex - w) (w * (3 / 10))
                 (\<lambda>x cs. Some (cs @ plate_window ed mx W w h x y)) sx) sy cs
      = Some (fold (\<lambda>y cs. cs @ concat (map (\<lambda>x. plate_window ed mx W w h x y)
                  (loop_positions sx (ex - w) (w * (3 / 10)))))
               (loop_positions sy (ey - h) (h * (5 / 10))) cs)"
    by (rule for_real_total [OF sy]) (rule inner)
  then show ?thesis
    unfolding plate_scan_size_def by (simp add: fold_append_concat)
qed

section \<open>License plate detector\<close>

lemma plate_scan_size_candidates:
  assumes "0 < fst sz" "0 < snd sz"
  shows "plate_scan_size ed mx W bounds sz cs = Some (cs @ plate_size_candidates ed mx W bounds sz)"
proof -
  obtain sx sy ex ey where b: "bounds = (sx, sy, ex, ey)" by (cases bounds) auto
  obtain w h where s: "sz = (w, h)" by (cases sz)
  show ?thesis using assms plate_scan_size_total [of w h ed mx W sx sy ex ey cs]
    by (simp add: b s plate_size_candidates_def)
qed

lemma plate_candidates_total:
  assumes "0 < W"
  shows "plate_candidates ed mx W H hint
     = Some (plate_size_candidates ed mx W (plate_search_bounds W H hint)
               (real W * (25 / 100), real W * (65 / 1000))
           @ plate_size_candidates ed mx W (plate_search_bounds W H hint)
               (real W * (15 / 100), real W * (75 / 1000)))"
  using assms by (simp add: plate_candidates_def plateSizes_def plate_scan_size_candidates)

lemma top_dims: "img_height top_image = 8" "img_width top_image = 8"
  by (simp_all add: top_image_def)

lemma top_grayscale: "grayscale top_image = [0, 255] @ replicate 62 0"
  by (simp add: grayscale_def top_image_def)

lemma top_gradX:
  "map abs (conv2d_same sobelX ([0, 255] @ replicate 62 0) 8 8) = top_edges"
  by code_simp

lemma top_max: "tf_max top_edges = Num 510"
  by code_simp

lemma top_plate_edges: "plate_edges healthy top_image = Inr (top_edges, Num 510)"
  unfolding plate_edges_def Let_def top_dims top_grayscale top_gradX top_max
  by (simp add: tf_try_def healthy_def)

lemma top_bounds: "plate_search_bounds 8 8 (Some grid_hint) = (0, 9 / 10, 3, 3)"
  by (simp add: plate_search_bounds_def grid_hint_def)


lemma top_size1:
  "plate_size_candidates top_edges (Num 510) 8 (0, 9 / 10, 3, 3) (real 8 * (25 / 100), real 8 * (65 / 1000))
   = replicate 2 (\<lparr>bb_x = 0, bb_y = 0, bb_width = 2, bb_height = 0\<rparr>, Num (25 / 26))
     @ replicate 8 (\<lparr>bb_x = 0, bb_y = 1, bb_width = 2, bb_height = 0\<rparr>, Num (35 / 52))"
  by code_simp

lemma loop_positions_bounds:
  assumes "0 < step" "v \<in> set (loop_positions start bound step)"
  shows "start \<le> v \<and> v < bound"
proof -
  let ?q = "(bound - start) / step"
  from assms(2) obtain k where k: "k < nat \<lceil>?q\<rceil>" "v = start + real k * step"
    by (auto simp: loop_positions_def)
  have "int k < \<lceil>?q\<rceil>" using k(1) by linarith
  then have "real k < ?q" by (simp add: less_ceiling_iff)
  then have "real k * step < bound - start" using assms(1) by (simp add: pos_less_divide_eq)
  moreover have "0 \<le> real k * step" using assms(1) by simp
  ultimately show ?thesis using k(2) by linarith
qed

lemma plate_window_member:
  "c \<in> set (plate_window ed mx W w h x y) \<Longrightarrow>
     fst c = \<lparr>bb_x = of_int \<lfloor>x\<rfloor>, bb_y = of_int \<lfloor>y\<rfloor>,
              bb_width = of_int \<lfloor>w\<rfloor>, bb_height = of_int \<lfloor>h\<rfloor>\<rparr>
   \<and> js_gt (plate_edgeDensity ed mx W w h x y) (Num (15 / 100))
   \<and> js_gt (plate_horizontalRatio ed mx W w h x y) (Num (1 / 10))
   \<and> snd c = js_add (js_mul (plate_edgeDensity ed mx W w h x y) (Num (6 / 10)))
                     (js_mul (plate_horizontalRatio ed mx W w h x y) (Num (4 / 10)))"
  by (auto simp: plate_window_def Let_def split: if_splits)

lemma plate_size_candidates_member:
  assumes "0 < w" "0 < h" "c \<in> set (plate_size_candidates ed mx W (sx, sy, ex, ey) (w, h))"
  shows "\<exists>x y. sx \<le> x \<and> x < ex - w \<and> sy \<le> y \<and> y < ey - h
           \<and> c \<in> set (plate_window ed mx W w h x y)"
proof -
  from assms(3) obtain y x where
    y: "y \<in> set (loop_positions sy (ey - h) (h * (5 / 10)))" and
    x: "x \<in> set (loop_positions sx (ex - w) (w * (3 / 10)))" and
    c: "c \<in> set (plate_window ed mx W w h x y)"
    by (auto simp: plate_size_candidates_def)
  have "0 < h * (5 / 10)" "0 < w * (3 / 10)" using assms by simp_all
  from loop_positions_bounds [OF this(1) y] loop_positions_bounds [OF this(2) x] c
  show ?thesis by blast
qed

lemma set_insert_by_score: "set (insert_by_score a bs) = insert a (set bs)"
  by (induction bs) auto

lemma set_sort_by_score: "set (sort_by_score cs) = set cs"
  by (induction cs) (auto simp: sort_by_score_def set_insert_by_score)

lemma plate_best_member:
  assumes "plate_best cs = Some p"
  shows "\<exists>c\<in>set cs. lp_bbox p = fst c \<and> lp_confidence p = js_min (js_mul (snd c) (Num 2)) (Num (9 / 10))"
proof -
  from assms obtain best rest where s: "sort_by_score cs = best # rest"
    and p: "p = \<lparr>lp_bbox = fst best, lp_confidence = js_min (js_mul (snd best) (Num 2)) (Num (9 / 10))\<rparr>"
    by (auto simp: plate_best_def split: list.splits)
  have "best \<in> set cs" using s set_sort_by_score [of cs] by auto
  then show ?thesis using p by auto
qed

lemma plate_best_None: "plate_best cs = None \<longleftrightarrow> cs = []"
proof -
  have "sort_by_score cs = [] \<longleftrightarrow> cs = []"
    using set_sort_by_score [of cs] by (metis set_empty)
  then show ?thesis by (auto simp: plate_best_def split: list.splits)
qed


lemma top_size2:
  "plate_size_candidates top_edges (Num 510) 8 (0, 9 / 10, 3, 3) (real 8 * (15 / 100), real 8 * (75 / 1000))
   = replicate 3 (\<lparr>bb_x = 0, bb_y = 0, bb_width = 1, bb_height = 0\<rparr>, Num (25 / 18))
     @ replicate 2 (\<lparr>bb_x = 1, bb_y = 0, bb_width = 1, bb_height = 0\<rparr>, Num (25 / 18))
     @ concat (replicate 3
         (replicate 3 (\<lparr>bb_x = 0, bb_y = 1, bb_width = 1, bb_height = 0\<rparr>, Num (35 / 36))
          @ replicate 2 (\<lparr>bb_x = 1, bb_y = 1, bb_width = 1, bb_height = 0\<rparr>, Num (35 / 36))))"
  by code_simp

lemma top_best:
  "plate_best
     ((replicate 2 (\<lparr>bb_x = 0, bb_y = 0, bb_width = 2, bb_height = 0\<rparr>, Num (25 / 26))
       @ replicate 8 (\<lparr>bb_x = 0, bb_y = 1, bb_width = 2, bb_height = 0\<rparr>, Num (35 / 52)))
      @ (replicate 3 (\<lparr>bb_x = 0, bb_y = 0, bb_width = 1, bb_height = 0\<rparr>, Num (25 / 18))
         @ replicate 2 (\<lparr>bb_x = 1, bb_y = 0, bb_width = 1, bb_height = 0\<rparr>, Num (25 / 18))
         @ concat (replicate 3
             (replicate 3 (\<lparr>bb_x = 0, bb_y = 1, bb_width = 1, bb_height = 0\<rparr>, Num (35 / 36))
              @ replicate 2 (\<lparr>bb_x = 1, bb_y = 1, bb_width = 1, bb_height = 0\<rparr>, Num (35 / 36))))))
   = Some \<lparr>lp_bbox = \<lparr>bb_x = 0, bb_y = 0, bb_width = 1, bb_height = 0\<rparr>, lp_confidence = Num (9 / 10)\<rparr>"
  by code_simp

lemma top_detectLicensePlateRegion:
  "detectLicensePlateRegion healthy top_image 8 8 (Some grid_hint)
     = Some (Some \<lparr>lp_bbox = \<lparr>bb_x = 0, bb_y = 0, bb_width = 1, bb_height = 0\<rparr>,
                   lp_confidence = Num (9 / 10)\<rparr>)"
proof -
  have "plate_candidates top_edges (Num 510) 8 8 (Some grid_hint)
     = Some (plate_size_candidates top_edges (Num 510) 8 (0, 9 / 10, 3, 3) (real 8 * (25 / 100), real 8 * (65 / 1000))
           @ plate_size_candidates top_edges (Num 510) 8 (0, 9 / 10, 3, 3) (real 8 * (15 / 100), real 8 * (75 / 1000)))"
    using plate_candidates_total [of 8 top_edges "Num 510" 8 "Some grid_hint"]
    unfolding top_bounds by simp
  then show ?thesis
    unfolding detectLicensePlateRegion_def top_plate_edges top_size1 top_size2
    by (simp only: sum.case prod.case option.map top_best)
qed










section \<open>License plate detector: the edge field\<close>

lemma conv_at_sobelX:
  "conv_at sobelX f h w y x =
     (field_at f h w (y - 1) (x + 1) + 2 * field_at f h w y (x + 1) + field_at f h w (y + 1) (x + 1))
     - (field_at f h w (y - 1) (x - 1) + 2 * field_at f h w y (x - 1) + field_at f h w (y + 1) (x - 1))"
  by (simp add: conv_at_def sobelX_def upt_rec [of 0 3] upt_rec [of 1 3] upt_rec [of 2 3]
        numeral_eq_Suc algebra_simps)

lemma conv2d_same_nth:
  assumes "y < h" "x < w"
  shows "conv2d_same k f h w ! (y * w + x) = conv_at k f h w (int y) (int x)"
proof -
  have "y * w + x < h * w"
  proof -
    have "y * w + x < y * w + w" using assms by simp
    also have "\<dots> = Suc y * w" by simp
    also have "\<dots> \<le> h * w" using assms by (intro mult_le_mono1) simp
    finally show ?thesis .
  qed
  then show ?thesis using assms by (simp add: conv2d_same_def)
qed

lemma length_conv2d_same: "length (conv2d_same k f h w) = h * w"
  by (simp add: conv2d_same_def)

lemma pixel_index_less: "y < h \<Longrightarrow> x < w \<Longrightarrow> y * w + x < h * (w :: nat)"
proof -
  assume a: "y < h" "x < w"
  have "y * w + x < Suc y * w" using a by simp
  also have "\<dots> \<le> h * w" using a by (intro mult_le_mono1) simp
  finally show ?thesis .
qed

lemma plate_edges_field:
  assumes "plate_edges be img = Inr (edgeData, maxEdge)"
  shows "edgeData = horizontal_edge_field img" "maxEdge = tf_max (horizontal_edge_field img)"
proof -
  let ?h = "img_height img" and ?w = "img_width img"
  from assms have ed: "edgeData = map abs (conv2d_same sobelX (grayscale img) ?h ?w)"
    and mx: "maxEdge = tf_max edgeData"
    by (auto simp: plate_edges_def tf_try_def Let_def split: list.splits)
  show "edgeData = horizontal_edge_field img"
    unfolding ed
    by (simp add: conv2d_same_def horizontal_edge_field_def conv_at_sobelX sobel_x_response_def Let_def)
  then show "maxEdge = tf_max (horizontal_edge_field img)" using mx by simp
qed

lemma horizontal_edge_field_val:
  "plate_edge_val (horizontal_edge_field img) (tf_max (horizontal_edge_field img)) idx
     = horizontal_edge_val img idx"
proof (cases "0 \<le> idx \<and> idx < int (img_height img * img_width img)")
  case True
  then have n: "nat idx < img_height img * img_width img" by linarith
  have i: "int (nat idx) = idx" using True by simp
  have "int (nat idx div img_width img) = idx div int (img_width img)"
       "int (nat idx mod img_width img) = idx mod int (img_width img)"
    unfolding zdiv_int zmod_int i by simp_all
  then have "horizontal_edge_field img ! nat idx
     = \<bar>sobel_x_response img (idx div int (img_width img)) (idx mod int (img_width img))\<bar>"
    using n by (simp add: horizontal_edge_field_def)
  then show ?thesis
    using True by (simp add: plate_edge_val_def data_or_zero_def horizontal_edge_val_def
                     horizontal_edge_field_def)
next
  case False
  then show ?thesis
    by (auto simp: plate_edge_val_def data_or_zero_def horizontal_edge_val_def
          horizontal_edge_field_def)
qed

lemma horizontal_edge_field_window:
  "plate_window_vals (horizontal_edge_field img) (tf_max (horizontal_edge_field img)) W w h x y
     = horizontal_window_vals img W w h x y"
  by (simp add: plate_window_vals_def horizontal_window_vals_def horizontal_edge_field_val)

lemma top_window_vals:
  "plate_window_vals top_edges (Num 510) 8 2 (13 / 25) 0 (9 / 10) = [Num 1, Num 0]"
  "plate_edgeDensity top_edges (Num 510) 8 2 (13 / 25) 0 (9 / 10) = Num (25 / 26)"
  "plate_horizontalRatio top_edges (Num 510) 8 2 (13 / 25) 0 (9 / 10) = Num (25 / 26)"
  by code_simp+

lemma top_window_vals_row1:
  "plate_window_vals top_edges (Num 510) 8 (6 / 5) (3 / 5) (18 / 25) (6 / 5) = [Num (1 / 2), Num 0]"
  "plate_window top_edges (Num 510) 8 (6 / 5) (3 / 5) (18 / 25) (6 / 5)
     = [(\<lparr>bb_x = 0, bb_y = 1, bb_width = 1, bb_height = 0\<rparr>, Num (35 / 36))]"
  by code_simp+

text \<open>
  Claim C4 (amended). The per-pixel edge values that \<open>detectLicensePlateRegion\<close> scores
  are computed over the absolute response of the horizontal Sobel kernel alone, divided
  by the maximum of that field: the edge data of the detector are the field of
  \<open>|gx(y, x)|\<close>, the edge value at any index is \<open>|gx| / max |gx|\<close> there, at a pixel
  \<open>(y, x)\<close> of the image it is \<open>|gx(y, x)| / max |gx|\<close>, the values summed into
  \<open>edgeDensity\<close> and counted into \<open>horizontalRatio\<close> for every window are these values,
  and the detector returns the best of the candidates scored on that field. The vertical
  kernel and the square root of the gradient magnitude are not used.
\<close>

theorem plate_edge_values_are_horizontal_sobel_only:
  assumes "plate_edges be img = Inr (edgeData, maxEdge)"
  shows "edgeData = horizontal_edge_field img
       \<and> maxEdge = tf_max (horizontal_edge_field img)
       \<and> plate_edge_val edgeData maxEdge idx = horizontal_edge_val img idx
       \<and> (py < img_height img \<and> px < img_width img \<longrightarrow>
            plate_edge_val edgeData maxEdge (int py * int (img_width img) + int px)
              = js_div (Num \<bar>sobel_x_response img (int py) (int px)\<bar>)
                       (tf_max (horizontal_edge_field img)))
       \<and> plate_window_vals edgeData maxEdge imageWidth w h x y
            = horizontal_window_vals img imageWidth w h x y
       \<and> plate_edgeDensity edgeData maxEdge imageWidth w h x y
            = js_div (fold (\<lambda>edgeVal edgeDensity. js_add edgeDensity edgeVal)
                        (horizontal_window_vals img imageWidth w h x y) (Num 0))
                     (Num (w * h))
       \<and> plate_horizontalRatio edgeData maxEdge imageWidth w h x y
            = js_div (Num (real (length (filter (\<lambda>edgeVal. js_gt edgeVal (Num (3 / 10)))
                                           (horizontal_window_vals img imageWidth w h x y)))))
                     (Num (w * h))
       \<and> detectLicensePlateRegion be img imageWidth imageHeight vehicleRegion
            = map_option plate_best
                (plate_candidates (horizontal_edge_field img) (tf_max (horizontal_edge_field img))
                   imageWidth imageHeight vehicleRegion)"
proof -
  note f = plate_edges_field [OF assms]
  have pix: "plate_edge_val edgeData maxEdge (int py * int (img_width img) + int px)
       = js_div (Num \<bar>sobel_x_response img (int py) (int px)\<bar>) (tf_max (horizontal_edge_field img))"
    if b: "py < img_height img" "px < img_width img"
  proof -
    let ?i = "int py * int (img_width img) + int px"
    have lt: "py * img_width img + px < img_height img * img_width img"
      using b by (rule pixel_index_less)
    have e: "?i = int (py * img_width img + px)" by simp
    have r: "0 \<le> ?i \<and> ?i < int (img_height img * img_width img)"
      unfolding e using lt by (simp only: of_nat_less_iff of_nat_0_le_iff simp_thms)
    have "?i div int (img_width img) = int ((py * img_width img + px) div img_width img)"
         "?i mod int (img_width img) = int ((py * img_width img + px) mod img_width img)"
      unfolding e zdiv_int zmod_int by simp_all
    then have dm: "?i div int (img_width img) = int py" "?i mod int (img_width img) = int px"
      using b(2) by simp_all
    show ?thesis
      unfolding f horizontal_edge_field_val
      using r dm by (simp only: horizontal_edge_val_def simp_thms if_True)
  qed
  have d: "detectLicensePlateRegion be img imageWidth imageHeight vehicleRegion
       = map_option plate_best
           (plate_candidates (horizontal_edge_field img) (tf_max (horizontal_edge_field img))
              imageWidth imageHeight vehicleRegion)"
    using assms f by (simp add: detectLicensePlateRegion_def)
  show ?thesis
    using pix d
    by (simp add: f horizontal_edge_field_val horizontal_edge_field_window
          plate_edgeDensity_def plate_horizontalRatio_def)
qed

lemma top_gradX_signed:
  "conv2d_same sobelX ([0, 255] @ replicate 62 0) 8 8
     = [510, 0, - 510] @ replicate 5 0 @ [255, 0, - 255] @ replicate 53 0"
  by code_simp

lemma top_gradY:
  "conv2d_same sobelY ([0, 255] @ replicate 62 0) 8 8
     = replicate 8 0 @ [- 255, - 510, - 255] @ replicate 53 0"
  by code_simp

lemma top_squares:
  "map (\<lambda>(gx, gy). gx\<^sup>2 + gy\<^sup>2)
     (zip ([510, 0, - 510] @ replicate 5 0 @ [255, 0, - 255] @ replicate 53 0)
          (replicate 8 0 @ [- 255, - 510, - 255] @ replicate 53 0))
   = [260100, 0, 260100] @ replicate 5 0 @ [130050, 260100, 130050] @ replicate 53 (0 :: real)"
  by code_simp

lemma top_sq_magnitude:
  "sq_magnitude top_image
     = [260100, 0, 260100] @ replicate 5 0 @ [130050, 260100, 130050] @ replicate 53 0"
  unfolding sq_magnitude_def Let_def top_grayscale top_dims top_gradX_signed top_gradY
  by (rule top_squares)

lemma top_sq_facts:
  "Max (set ([260100, 0, 260100] @ replicate 5 0 @ [130050, 260100, 130050] @ replicate 53 (0 :: real))) = 260100"
  "([260100, 0, 260100] @ replicate 5 0 @ [130050, 260100, 130050] @ replicate 53 (0 :: real)) ! 9 = 260100"
  "length ([260100, 0, 260100] @ replicate 5 0 @ [130050, 260100, 130050] @ replicate 53 (0 :: real)) = 64"
  by code_simp+

lemma top_normalized_magnitude: "normalized_magnitude top_image ! (1 * 8 + 1) = Num 1"
proof -
  let ?sq = "sq_magnitude top_image"
  have M: "Max (set ?sq) = 260100" unfolding top_sq_magnitude by (rule top_sq_facts(1))
  have n9: "?sq ! 9 = 260100" unfolding top_sq_magnitude by (rule top_sq_facts(2))
  have len: "length ?sq = 64" unfolding top_sq_magnitude by (rule top_sq_facts(3))
  then have ne: "?sq \<noteq> []" by auto
  have mx: "tf_max (map sqrt ?sq) = Num (sqrt 260100)"
    using ne Max_sqrt [OF ne] M by (simp add: tf_max_def)
  have "normalized_magnitude top_image ! 9 = js_div (Num (sqrt (?sq ! 9))) (Num (sqrt 260100))"
    using len by (simp add: normalized_magnitude_def gradient_magnitude_sqrt mx Let_def)
  also have "\<dots> = Num 1" unfolding n9 by simp
  finally show ?thesis by simp
qed

theorem plate_edge_values_are_horizontal_sobel_only_witness:
  "plate_edges healthy top_image = Inr (top_edges, Num 510)
   \<and> horizontal_edge_field top_image = top_edges
   \<and> tf_max (horizontal_edge_field top_image) = Num 510
   \<and> (0 :: nat) < img_height top_image \<and> (0 :: nat) < img_width top_image
   \<and> js_div (Num \<bar>sobel_x_response top_image (int 0) (int 0)\<bar>) (Num 510) = Num 1
   \<and> horizontal_window_vals top_image 8 2 (13 / 25) 0 (9 / 10) = [Num 1, Num 0]
   \<and> plate_edgeDensity top_edges (Num 510) 8 2 (13 / 25) 0 (9 / 10) = Num (25 / 26)
   \<and> plate_horizontalRatio top_edges (Num 510) 8 2 (13 / 25) 0 (9 / 10) = Num (25 / 26)
   \<and> detectLicensePlateRegion healthy top_image 8 8 (Some grid_hint)
       = map_option plate_best (plate_candidates top_edges (Num 510) 8 8 (Some grid_hint))
   \<and> detectLicensePlateRegion healthy top_image 8 8 (Some grid_hint)
       = Some (Some \<lparr>lp_bbox = \<lparr>bb_x = 0, bb_y = 0, bb_width = 1, bb_height = 0\<rparr>,
                     lp_confidence = Num (9 / 10)\<rparr>)"
proof -
  have h: "(0 :: nat) < img_height top_image \<and> (0 :: nat) < img_width top_image"
    by (simp add: top_dims)
  have v: "plate_edge_val top_edges (Num 510) (int 0 * int (img_width top_image) + int 0) = Num 1"
    by (simp add: plate_edge_val_def data_or_zero_def top_edges_def)
  from plate_edge_values_are_horizontal_sobel_only
         [OF top_plate_edges, of 0 0 0 8 2 "13 / 25" 0 "9 / 10" 8 "Some grid_hint"]
  have t: "top_edges = horizontal_edge_field top_image"
    "Num 510 = tf_max (horizontal_edge_field top_image)"
    "plate_edge_val top_edges (Num 510) (int 0 * int (img_width top_image) + int 0)
       = js_div (Num \<bar>sobel_x_response top_image (int 0) (int 0)\<bar>)
                (tf_max (horizontal_edge_field top_image))"
    "plate_window_vals top_edges (Num 510) 8 2 (13 / 25) 0 (9 / 10)
       = horizontal_window_vals top_image 8 2 (13 / 25) 0 (9 / 10)"
    "detectLicensePlateRegion healthy top_image 8 8 (Some grid_hint)
       = map_option plate_best
           (plate_candidates (horizontal_edge_field top_image)
              (tf_max (horizontal_edge_field top_image)) 8 8 (Some grid_hint))"
    using h by blast+
  have a: "horizontal_edge_field top_image = top_edges"
    "tf_max (horizontal_edge_field top_image) = Num 510"
    using t(1,2) by simp_all
  have b: "js_div (Num \<bar>sobel_x_response top_image (int 0) (int 0)\<bar>) (Num 510) = Num 1"
    using t(3) v unfolding a(2) by simp
  have c: "horizontal_window_vals top_image 8 2 (13 / 25) 0 (9 / 10) = [Num 1, Num 0]"
    using t(4) top_window_vals(1) by simp
  have d: "detectLicensePlateRegion healthy top_image 8 8 (Some grid_hint)
       = map_option plate_best (plate_candidates top_edges (Num 510) 8 8 (Some grid_hint))"
    using t(5) unfolding a(1) top_max .
  show ?thesis
    using top_plate_edges a h b c top_window_vals(2,3) d top_detectLicensePlateRegion
    by (intro conjI) blast+
qed

theorem plate_edge_values_not_gradient_magnitude_counterexample:
  "plate_edges healthy top_image = Inr (top_edges, Num 510)
   \<and> plate_window_vals top_edges (Num 510) 8 (6 / 5) (3 / 5) (18 / 25) (6 / 5)
       = [Num (1 / 2), Num 0]
   \<and> plate_window top_edges (Num 510) 8 (6 / 5) (3 / 5) (18 / 25) (6 / 5)
       = [(\<lparr>bb_x = 0, bb_y = 1, bb_width = 1, bb_height = 0\<rparr>, Num (35 / 36))]
   \<and> \<lfloor>6 / 5 + real 0\<rfloor> * int 8 + \<lfloor>18 / 25 + real 1\<rfloor> = 1 * 8 + 1
   \<and> plate_edge_val top_edges (Num 510) (1 * 8 + 1) = Num 0
   \<and> normalized_magnitude top_image ! (1 * 8 + 1) = Num 1
   \<and> plate_window_vals top_edges (Num 510) 8 (6 / 5) (3 / 5) (18 / 25) (6 / 5)
       \<noteq> map (\<lambda>idx. normalized_magnitude top_image ! idx) [1 * 8 + 0, 1 * 8 + 1]"
proof -
  have e: "plate_edge_val top_edges (Num 510) (1 * 8 + 1) = Num 0"
    by code_simp
  have i: "\<lfloor>6 / 5 + real 0\<rfloor> * int 8 + \<lfloor>18 / 25 + real 1\<rfloor> = 1 * 8 + 1"
    by simp
  have n: "plate_window_vals top_edges (Num 510) 8 (6 / 5) (3 / 5) (18 / 25) (6 / 5)
       \<noteq> map (\<lambda>idx. normalized_magnitude top_image ! idx) [1 * 8 + 0, 1 * 8 + 1]"
    unfolding top_window_vals_row1(1) using top_normalized_magnitude by simp
  show ?thesis
    using top_plate_edges top_window_vals_row1 i e top_normalized_magnitude n
    by (intro conjI) blast+
qed

section \<open>Images without any response\<close>

lemma zero_or_nan_simps [simp]: "zero_or_nan NaN" "zero_or_nan (Num 0)"
  by (simp_all add: zero_or_nan_def)

lemma zero_or_nan_div_zero: "zero_or_nan (js_div (Num 0) m)"
  by (cases m) (auto simp: zero_or_nan_def)

lemma zero_or_nan_div: "zero_or_nan v \<Longrightarrow> zero_or_nan (js_div v (Num a))"
  by (auto simp: zero_or_nan_def split: if_splits)

lemma zero_or_nan_add: "zero_or_nan a \<Longrightarrow> zero_or_nan b \<Longrightarrow> zero_or_nan (js_add a b)"
  by (auto simp: zero_or_nan_def)

lemma zero_or_nan_fold_add:
  "zero_or_nan acc \<Longrightarrow> \<forall>v\<in>set vs. zero_or_nan v \<Longrightarrow>
   zero_or_nan (fold (\<lambda>v acc. js_add acc v) vs acc)"
  by (induction vs arbitrary: acc) (auto simp: zero_or_nan_add)

lemma zero_or_nan_not_gt: "zero_or_nan v \<Longrightarrow> 0 \<le> c \<Longrightarrow> \<not> js_gt v (Num c)"
  by (auto simp: zero_or_nan_def)

lemma data_or_zero_zero: "set d \<subseteq> {0} \<Longrightarrow> data_or_zero d idx = 0"
  by (auto simp: data_or_zero_def subset_iff)

lemma plate_window_zero:
  assumes "set ed \<subseteq> {0}"
  shows "plate_window ed mx W w h x y = []"
proof -
  have v: "\<forall>v\<in>set (plate_window_vals ed mx W w h x y). zero_or_nan v"
    by (auto simp: plate_window_vals_def plate_edge_val_def data_or_zero_zero [OF assms]
          zero_or_nan_div_zero)
  have "zero_or_nan (plate_edgeDensity ed mx W w h x y)"
    unfolding plate_edgeDensity_def by (intro zero_or_nan_div zero_or_nan_fold_add v) simp
  then have "\<not> js_gt (plate_edgeDensity ed mx W w h x y) (Num (15 / 100))"
    by (rule zero_or_nan_not_gt) simp
  then show ?thesis by (simp add: plate_window_def Let_def)
qed

lemma plate_size_candidates_zero:
  "set ed \<subseteq> {0} \<Longrightarrow> plate_size_candidates ed mx W bounds sz = []"
  by (cases bounds; cases sz) (simp add: plate_size_candidates_def plate_window_zero)

lemma detectLicensePlateRegion_zero:
  assumes "0 < W"
    and "set (conv2d_same sobelX (grayscale img) (img_height img) (img_width img)) \<subseteq> {0}"
  shows "detectLicensePlateRegion be img W H hint = Some None"
proof (cases "plate_edges be img")
  case (Inl e)
  then show ?thesis by (simp add: detectLicensePlateRegion_def)
next
  case (Inr r)
  obtain ed mx where r: "r = (ed, mx)" by (cases r)
  from Inr r have "ed = map abs (conv2d_same sobelX (grayscale img) (img_height img) (img_width img))"
    by (auto simp: plate_edges_def tf_try_def Let_def split: list.splits)
  with assms(2) have z: "set ed \<subseteq> {0}" by auto
  have "plate_candidates ed mx W H hint = Some []"
    using plate_candidates_total [OF assms(1), of ed mx H hint]
    by (simp add: plate_size_candidates_zero [OF z])
  then show ?thesis using Inr r by (simp add: detectLicensePlateRegion_def plate_best_def sort_by_score_def)
qed

lemma count_edges_no_edge:
  "\<forall>b\<in>set e. \<not> b \<Longrightarrow> count_edges e W H sx sy rw rh = 0"
proof -
  assume a: "\<forall>b\<in>set e. \<not> b"
  have "\<not> edge_at e idx" for idx
  proof
    assume "edge_at e idx"
    then have i: "idx < length e" and t: "e ! idx" unfolding edge_at_def by blast+
    from i have "e ! idx \<in> set e" by (rule nth_mem)
    with a t show False by blast
  qed
  then have "filter (\<lambda>(y, x). edge_at e (y * W + x)) ps = []" for ps
    by (intro filter_False) (simp add: split_def)
  then show ?thesis unfolding count_edges_def by (simp only: list.size)
qed

lemma vehicle_scan_no_edge:
  assumes "\<forall>b\<in>set e. \<not> b"
  shows "vehicle_scan e W H = None"
proof (cases "vehicle_scan e W H")
  case None then show ?thesis .
next
  case (Some v)
  from vehicle_scan_Some [OF Some] obtain gy gx where
    "js_gt (window_density e W H gx gy) (Num (5 / 100))" by blast
  moreover have "zero_or_nan (window_density e W H gx gy)"
    by (simp add: window_density_def Let_def count_edges_no_edge [OF assms] zero_or_nan_div_zero)
  ultimately show ?thesis using zero_or_nan_not_gt [of "window_density e W H gx gy" "5 / 100"] by simp
qed

lemma detectVehicleRegion_zero:
  assumes "set (conv2d_same sobelX (grayscale img) (img_height img) (img_width img)) \<subseteq> {0}"
    and "set (conv2d_same sobelY (grayscale img) (img_height img) (img_width img)) \<subseteq> {0}"
  shows "detectVehicleRegion be img W H = None"
proof (cases "vehicle_edges be img")
  case (Inl e)
  then show ?thesis by (simp add: detectVehicleRegion_def)
next
  case (Inr e)
  have m: "\<forall>m\<in>set (gradient_magnitude img). m = 0"
  proof
    fix m assume "m \<in> set (gradient_magnitude img)"
    then obtain gx gy where
      g: "gx \<in> set (conv2d_same sobelX (grayscale img) (img_height img) (img_width img))"
      "gy \<in> set (conv2d_same sobelY (grayscale img) (img_height img) (img_width img))"
      and m: "m = sqrt (gx\<^sup>2 + gy\<^sup>2)"
      unfolding gradient_magnitude_def Let_def by (auto elim!: in_set_zipE)
    from g assms have "gx = 0" "gy = 0" by blast+
    then show "m = 0" using m by simp
  qed
  have "\<forall>v\<in>set (normalized_magnitude img). zero_or_nan v"
  proof
    fix v assume "v \<in> set (normalized_magnitude img)"
    then obtain q where q: "q \<in> set (gradient_magnitude img)"
      and v: "v = js_div (Num q) (tf_max (gradient_magnitude img))"
      unfolding normalized_magnitude_def Let_def by auto
    from q m have "q = 0" by blast
    then show "zero_or_nan v" unfolding v by (simp only: zero_or_nan_div_zero)
  qed
  then have nogt: "\<forall>v\<in>set (normalized_magnitude img). \<not> js_gt v (Num (15 / 100))"
    using zero_or_nan_not_gt [of _ "15 / 100"] by simp
  from Inr have eq: "e = map (\<lambda>v. js_gt v (Num (15 / 100))) (normalized_magnitude img)"
    by (auto simp: vehicle_edges_def tf_try_def split: list.splits)
  have "\<forall>b\<in>set e. \<not> b"
  proof (intro ballI)
    fix b assume "b \<in> set e"
    then obtain v where "v \<in> set (normalized_magnitude img)" "b = js_gt v (Num (15 / 100))"
      unfolding eq by auto
    with nogt show "\<not> b" by blast
  qed
  from vehicle_scan_no_edge [OF this] show ?thesis using Inr by (simp add: detectVehicleRegion_def)
qed

lemma for_real_nested_total:
  assumes "0 < sx" "0 < sy"
  shows "for_real by sy (\<lambda>y. for_real bx sx (\<lambda>x s. Some (f y x s)) x0) y0 s
     = Some (fold (\<lambda>y. fold (f y) (loop_positions x0 bx sx)) (loop_positions y0 by sy) s)"
proof -
  have inner: "for_real bx sx (\<lambda>x s. Some (f y x s)) x0 s
                 = Some (fold (f y) (loop_positions x0 bx sx) s)" for y s
    by (rule for_real_total [OF assms(1)]) simp
  show ?thesis by (rule for_real_total [OF assms(2)]) (rule inner)
qed

lemma logo_scan_size_total:
  assumes "0 < logoSize"
  shows "logo_scan_size rd mx W H (cx, cy, r) logoSize best
     = Some (fold (\<lambda>y. fold (logo_position rd mx W H logoSize y)
                           (loop_positions (cx - r) (cx + r) (logoSize * (5 / 10))))
               (loop_positions (cy - r) (cy + r) (logoSize * (5 / 10))) best)"
proof -
  have s: "0 < logoSize * (5 / 10)" using assms by simp
  show ?thesis unfolding logo_scan_size_def prod.case
    by (rule for_real_nested_total [OF s s])
qed

text \<open>The invariant of the logo scan on an image without response.\<close>

lemma logo_position_zero:
  assumes "set rd \<subseteq> {0}"
    and "case best of None \<Rightarrow> True | Some b \<Rightarrow> zero_or_nan (snd b)"
  shows "case logo_position rd mx W H logoSize y x best of
           None \<Rightarrow> True | Some b \<Rightarrow> zero_or_nan (snd b)"
proof -
  let ?s = "logo_samples rd mx W H (logoSize / 2) x y"
  have v: "\<forall>v\<in>set ?s. zero_or_nan v"
    by (auto simp: logo_samples_def Let_def data_or_zero_zero [OF assms(1)] zero_or_nan_div_zero
          split: if_splits)
  have "zero_or_nan (js_div (fold (\<lambda>v blobScore. js_add blobScore v) ?s (Num 0))
                            (Num (real (length ?s))))"
    by (intro zero_or_nan_div zero_or_nan_fold_add v) simp
  then show ?thesis using assms(2)
    by (auto simp: logo_position_def Let_def split: option.splits)
qed

lemma logo_fold_zero:
  assumes "set rd \<subseteq> {0}"
    and "case best of None \<Rightarrow> True | Some b \<Rightarrow> zero_or_nan (snd b)"
  shows "case fold (\<lambda>y. fold (logo_position rd mx W H logoSize y) xs) ys best of
           None \<Rightarrow> True | Some b \<Rightarrow> zero_or_nan (snd b)"
proof -
  have inner: "case fold (logo_position rd mx W H logoSize y) xs' b' of
                 None \<Rightarrow> True | Some b \<Rightarrow> zero_or_nan (snd b)"
    if "case b' of None \<Rightarrow> True | Some b \<Rightarrow> zero_or_nan (snd b)" for y xs' b'
    using that by (induction xs' arbitrary: b') (simp_all add: logo_position_zero [OF assms(1)])
  show ?thesis using assms(2)
    by (induction ys arbitrary: best) (simp_all add: inner)
qed

lemma logo_scan_sizes_zero:
  assumes "set rd \<subseteq> {0}" and "\<forall>s\<in>set sizes. 0 < s"
    and "case best of None \<Rightarrow> True | Some b \<Rightarrow> zero_or_nan (snd b)"
  shows "\<exists>best'. logo_scan_sizes rd mx W H search sizes best = Some best'
           \<and> (case best' of None \<Rightarrow> True | Some b \<Rightarrow> zero_or_nan (snd b))"
  using assms(2,3)
proof (induction sizes arbitrary: best)
  case Nil
  then show ?case by simp
next
  case (Cons s sizes)
  obtain cx cy r where se: "search = (cx, cy, r)" by (cases search) auto
  have s: "0 < s" using Cons.prems(1) by simp
  let ?b = "fold (\<lambda>y. fold (logo_position rd mx W H s y)
                           (loop_positions (cx - r) (cx + r) (s * (5 / 10))))
               (loop_positions (cy - r) (cy + r) (s * (5 / 10))) best"
  have st: "logo_scan_size rd mx W H search s best = Some ?b"
    unfolding se by (rule logo_scan_size_total [OF s])
  have "case ?b of None \<Rightarrow> True | Some b \<Rightarrow> zero_or_nan (snd b)"
    by (rule logo_fold_zero [OF assms(1) Cons.prems(2)])
  from Cons.IH [OF _ this] Cons.prems(1) st show ?case by simp
qed

lemma detectLogoRegion_zero:
  assumes "0 < W"
    and "set (conv2d_same laplacian (grayscale img) (img_height img) (img_width img)) \<subseteq> {0}"
  shows "detectLogoRegion be img W H hint = Some None"
proof (cases "logo_response be img")
  case (Inl e)
  then show ?thesis by (simp add: detectLogoRegion_def)
next
  case (Inr r)
  obtain rd mx where r: "r = (rd, mx)" by (cases r)
  from Inr r have "rd = map abs (conv2d_same laplacian (grayscale img) (img_height img) (img_width img))"
    by (auto simp: logo_response_def tf_try_def Let_def split: list.splits)
  with assms(2) have z: "set rd \<subseteq> {0}" by auto
  have pos: "\<forall>s\<in>set (logoSizes W). 0 < s" using assms(1) by (simp add: logoSizes_def)
  from logo_scan_sizes_zero [OF z pos, of None mx W H "logo_search W H hint"]
  obtain best' where b: "logo_scan_sizes rd mx W H (logo_search W H hint) (logoSizes W) None = Some best'"
    and i: "case best' of None \<Rightarrow> True | Some b \<Rightarrow> zero_or_nan (snd b)" by auto
  have "logo_best best' = None"
    using i zero_or_nan_not_gt [of _ "1 / 10"] by (auto simp: logo_best_def split: option.splits)
  then show ?thesis using Inr r b by (simp add: detectLogoRegion_def)
qed

lemma field_at_zero:
  assumes "set f \<subseteq> {0}" "length f = h * w"
  shows "field_at f h w y x = 0"
proof (cases "0 \<le> y \<and> y < int h \<and> 0 \<le> x \<and> x < int w")
  case False
  then show ?thesis by (auto simp: field_at_def)
next
  case True
  then have "nat y < h" "nat x < w" by auto
  then have "nat y * w + nat x < h * w" by (rule pixel_index_less)
  then have "f ! (nat y * w + nat x) \<in> set f" using assms(2) by simp
  with assms(1) have "f ! (nat y * w + nat x) = 0" by auto
  with True show ?thesis by (simp add: field_at_def)
qed

lemma conv2d_same_zero:
  assumes "set f \<subseteq> {0}" "length f = h * w"
  shows "set (conv2d_same k f h w) \<subseteq> {0}"
  by (auto simp: conv2d_same_def conv_at_def field_at_zero [OF assms])

lemma black_zero_response:
  assumes "wf_image img" "set (img_data img) \<subseteq> {(0, 0, 0)}"
  shows "zero_response img"
proof -
  have g: "set (grayscale img) \<subseteq> {0}" using assms(2) by (auto simp: grayscale_def)
  have l: "length (grayscale img) = img_height img * img_width img"
    using assms(1) by (simp add: grayscale_def wf_image_def)
  show ?thesis unfolding zero_response_def by (intro conjI conv2d_same_zero g l)
qed



lemma white_dims: "img_height white_image = 8" "img_width white_image = 8"
  by (simp_all add: white_image_def)

lemma white_grayscale: "grayscale white_image = replicate 64 255"
  by (simp add: grayscale_def white_image_def)

lemma white_gradX:
  "conv2d_same sobelX (replicate 64 255) 8 8
     = [765] @ replicate 6 0 @ [- 765]
       @ concat (replicate 6 ([1020] @ replicate 6 0 @ [- 1020]))
       @ [765] @ replicate 6 0 @ [- 765]"
  by code_simp

lemma white_gradY:
  "conv2d_same sobelY (replicate 64 255) 8 8
     = [765] @ replicate 6 1020 @ [765] @ replicate 48 0
       @ [- 765] @ replicate 6 (- 1020) @ [- 765]"
  by code_simp

lemma white_squares:
  "map (\<lambda>(gx, gy). gx\<^sup>2 + gy\<^sup>2)
     (zip ([765] @ replicate 6 0 @ [- 765]
           @ concat (replicate 6 ([1020] @ replicate 6 0 @ [- 1020]))
           @ [765] @ replicate 6 0 @ [- 765])
          ([765] @ replicate 6 1020 @ [765] @ replicate 48 0
           @ [- 765] @ replicate 6 (- 1020) @ [- 765]))
   = [1170450] @ replicate 6 1040400 @ [1170450]
     @ concat (replicate 6 ([1040400] @ replicate 6 0 @ [1040400]))
     @ [1170450] @ replicate 6 1040400 @ [1170450 :: real]"
  by code_simp

lemma white_sq_magnitude:
  "sq_magnitude white_image
     = [1170450] @ replicate 6 1040400 @ [1170450]
       @ concat (replicate 6 ([1040400] @ replicate 6 0 @ [1040400]))
       @ [1170450] @ replicate 6 1040400 @ [1170450]"
  unfolding sq_magnitude_def Let_def white_grayscale white_dims white_gradX white_gradY
  by (rule white_squares)

lemma white_sq_mask:
  "sq_mask white_image
     = replicate 8 True @ concat (replicate 6 ([True] @ replicate 6 False @ [True]))
       @ replicate 8 True"
  unfolding sq_mask_def Let_def white_sq_magnitude by code_simp

lemma white_vehicle_scan:
  "vehicle_scan (replicate 8 True @ concat (replicate 6 ([True] @ replicate 6 False @ [True]))
                 @ replicate 8 True) 8 8 = Some grid_hint"
  by code_simp


section \<open>Color classifier\<close>

lemma slice_size_Some:
  "slice_size e b sz = Some n \<Longrightarrow> (0 \<le> sz \<and> n = sz) \<or> (sz = - 1 \<and> n = e - b)"
  by (auto simp: slice_size_def Let_def split: if_splits option.splits)

lemma tf_slice_Inr:
  assumes "tf_slice img beginY beginX sizeY sizeX = Inr px"
  obtains h w where "whole beginY" "whole beginX" "whole sizeY" "whole sizeX"
    "slice_size (int (img_height img)) \<lfloor>beginY\<rfloor> \<lfloor>sizeY\<rfloor> = Some h"
    "slice_size (int (img_width img)) \<lfloor>beginX\<rfloor> \<lfloor>sizeX\<rfloor> = Some w"
    "length px = nat h * nat w"
proof -
  from assms have wh: "whole beginY" "whole beginX" "whole sizeY" "whole sizeX"
    by (auto simp: tf_slice_def split: if_splits)
  with assms obtain h w where
    hw: "slice_size (int (img_height img)) \<lfloor>beginY\<rfloor> \<lfloor>sizeY\<rfloor> = Some h"
        "slice_size (int (img_width img)) \<lfloor>beginX\<rfloor> \<lfloor>sizeX\<rfloor> = Some w"
    and px: "px = concat (map (\<lambda>dy. map (\<lambda>dx.
                 img_data img ! ((nat \<lfloor>beginY\<rfloor> + dy) * img_width img + (nat \<lfloor>beginX\<rfloor> + dx)))
               [0..<nat w]) [0..<nat h])"
    by (auto simp: tf_slice_def split: option.splits)
  have "length px = nat h * nat w"
    unfolding px by (simp add: length_concat comp_def sum_list_triv)
  with wh hw that show ?thesis by blast
qed

text \<open>
  The size of a slice that is not empty, for a begin \<open>max 0 v\<close> and a size
  \<open>min s (extent - v)\<close> with \<open>s\<close> positive.
\<close>

lemma hint_slice_size:
  assumes "slice_size (int e) \<lfloor>max 0 v\<rfloor> \<lfloor>min s (real e - v)\<rfloor> = Some n"
    and "whole (max 0 v)" "whole (min s (real e - v))" "0 < s" "0 < n"
  shows "real_of_int n = min s (real e - v)"
proof -
  let ?sz = "min s (real e - v)"
  from slice_size_Some [OF assms(1)]
  consider "0 \<le> \<lfloor>?sz\<rfloor>" "n = \<lfloor>?sz\<rfloor>" | "\<lfloor>?sz\<rfloor> = - 1" "n = int e - \<lfloor>max 0 v\<rfloor>" by blast
  then show ?thesis
  proof cases
    case 1
    then show ?thesis using assms(3) by (simp add: whole_def)
  next
    case 2
    from assms(3) 2(1) have "?sz = - 1" by (simp add: whole_def)
    with assms(4) have "real e - v = - 1" by (simp add: min_def split: if_splits)
    then have v: "v = real e + 1" by simp
    then have "max 0 v = real_of_int (int e + 1)" by simp
    then have "\<lfloor>max 0 v\<rfloor> = int e + 1" by (simp only: floor_of_int)
    with 2(2) assms(5) show ?thesis by simp
  qed
qed

lemma color_region_count:
  assumes "color_region be img vr = Inr (px, pixelCount)" "positive_hint vr" "px \<noteq> []"
  shows "pixelCount = real (length px)"
proof (cases vr)
  case None
  let ?sy = "\<lfloor>real (img_height img) * (4 / 10)\<rfloor>"
  let ?sx = "\<lfloor>real (img_width img) * (6 / 10)\<rfloor>"
  from assms(1) None obtain b1 b2 where
    s: "tf_slice img b1 b2 (real_of_int ?sy) (real_of_int ?sx) = Inr px"
    and pc: "pixelCount = real_of_int ?sx * real_of_int ?sy"
    by (auto simp: color_region_def Let_def split: sum.splits)
  from s obtain h w where
    hw: "slice_size (int (img_height img)) \<lfloor>b1\<rfloor> \<lfloor>real_of_int ?sy\<rfloor> = Some h"
        "slice_size (int (img_width img)) \<lfloor>b2\<rfloor> \<lfloor>real_of_int ?sx\<rfloor> = Some w"
    and len: "length px = nat h * nat w"
    by (rule tf_slice_Inr)
  have nn: "0 \<le> ?sy" "0 \<le> ?sx" by simp_all
  from hw have "slice_size (int (img_height img)) \<lfloor>b1\<rfloor> ?sy = Some h"
      "slice_size (int (img_width img)) \<lfloor>b2\<rfloor> ?sx = Some w"
    by (simp_all only: floor_of_int)
  from slice_size_Some [OF this(1)] slice_size_Some [OF this(2)] nn
  have e: "h = ?sy" "w = ?sx" by linarith+
  have "real (length px) = real_of_int (int (nat h * nat w))" unfolding len by simp
  also have "\<dots> = real_of_int (?sy * ?sx)" using nn unfolding e by (simp add: nat_mult_distrib)
  finally show ?thesis using pc by (simp add: mult.commute)
next
  case (Some v)
  let ?x = "bb_x (vr_bbox v)" and ?y = "bb_y (vr_bbox v)"
  let ?w = "bb_width (vr_bbox v)" and ?h = "bb_height (vr_bbox v)"
  let ?sy = "min ?h (real (img_height img) - ?y)" and ?sx = "min ?w (real (img_width img) - ?x)"
  from assms(1) Some have
    s: "tf_slice img (max 0 ?y) (max 0 ?x) ?sy ?sx = Inr px" and pc: "pixelCount = ?sx * ?sy"
    by (auto simp: color_region_def Let_def split: sum.splits)
  from assms(2) Some have pos: "0 < ?w" "0 < ?h" by (simp_all add: positive_hint_def)
  from s obtain h w where
    wh: "whole (max 0 ?y)" "whole (max 0 ?x)" "whole ?sy" "whole ?sx"
    and hw: "slice_size (int (img_height img)) \<lfloor>max 0 ?y\<rfloor> \<lfloor>?sy\<rfloor> = Some h"
            "slice_size (int (img_width img)) \<lfloor>max 0 ?x\<rfloor> \<lfloor>?sx\<rfloor> = Some w"
    and len: "length px = nat h * nat w"
    by (rule tf_slice_Inr)
  from assms(3) have "length px \<noteq> 0" by simp
  then have "nat h \<noteq> 0" "nat w \<noteq> 0" unfolding len by auto
  then have p: "0 < h" "0 < w" by simp_all
  have eh: "real_of_int h = ?sy" using hw(1) wh(1,3) pos(2) p(1) by (rule hint_slice_size)
  have ew: "real_of_int w = ?sx" using hw(2) wh(2,4) pos(1) p(2) by (rule hint_slice_size)
  have "real (length px) = real_of_int (int (nat h * nat w))" unfolding len by simp
  also have "\<dots> = real_of_int h * real_of_int w" using p by (simp add: nat_mult_distrib)
  finally show ?thesis using pc eh ew by (simp add: mult.commute)
qed

lemma histogram_pixel_navy:
  "histogram_pixel (26, 26, 46) hist = histogram_add (0, 0, 32) (26, 26, 46) hist"
  by (simp add: histogram_pixel_def js_round_def)

lemma fold_histogram_navy:
  "fold histogram_pixel (replicate n (26, 26, 46)) [((0, 0, 32), (c, sr, sg, sb))]
     = [((0, 0, 32), (c + int n, sr + 26 * int n, sg + 26 * int n, sb + 46 * int n))]"
  by (induction n arbitrary: c sr sg sb)
     (simp_all add: histogram_pixel_navy algebra_simps del: fold_replicate)

lemma histogram_navy:
  "fold histogram_pixel (replicate (Suc n) (26, 26, 46)) []
     = [((0, 0, 32), (1 + int n, 26 + 26 * int n, 26 + 26 * int n, 46 + 46 * int n))]"
  by (simp add: histogram_pixel_navy fold_histogram_navy del: fold_replicate)

lemma round_mean: "js_round (real_of_int (k + k * int n) / real_of_int (1 + int n)) = k"
proof -
  have "real_of_int (k + k * int n) = real_of_int k * real_of_int (1 + int n)"
    by (simp add: algebra_simps)
  then have "real_of_int (k + k * int n) / real_of_int (1 + int n) = real_of_int k"
    by (simp add: add_nonneg_eq_0_iff)
  then show ?thesis by (simp add: js_round_def)
qed

lemma rgbToHsl_navy: "rgbToHsl 26 26 46 = (240, 250 / 9, 240 / 17)"
  by (simp add: rgbToHsl_def Let_def)

lemma rgbToHex_navy: "rgbToHex 26 26 46 = ''#1a1a2e''"
  by code_simp

lemma classify_navy:
  assumes "regionData \<noteq> []" "set regionData \<subseteq> {(26, 26, 46)}"
  shows "classify_region regionData (real (length regionData))
     = \<lparr>ci_dominant = ''#1a1a2e'', ci_name = Den, ci_confidence = Num 1, ci_rgb = (26, 26, 46)\<rparr>"
proof -
  from assms(1) obtain n where n: "length regionData = Suc n" by (cases regionData) auto
  have "replicate (length regionData) (26, 26, 46) = regionData"
    using assms(2) by (intro replicate_length_same) auto
  then have r: "regionData = replicate (Suc n) (26, 26, 46)" using n by simp
  have d: "fold dominant_step
             [((0, 0, 32), (1 + int n, 26 + 26 * int n, 26 + 26 * int n, 46 + 46 * int n))]
             (0, 0, 0, 0) = (26, 26, 46, 1 + int n)"
    using round_mean [of 26 n] round_mean [of 46 n] by (simp add: dominant_step_def)
  have c: "js_div (Num (real_of_int (1 + int n))) (Num (real (Suc n))) = Num 1"
    by simp
  show ?thesis
    unfolding classify_region_def Let_def n
    unfolding r histogram_navy d prod.case rgbToHsl_navy rgbToHex_navy c
    by (simp add: getColorName_def)
qed

text \<open>
  Claim C7. Whenever the region that \<open>detectVehicleColor\<close> samples has at least one pixel
  and consists solely of pixels of RGB \<open>(26, 26, 46)\<close> (the vehicle region, if one is
  given, having a positive size), the result is the color named \<open>Den\<close> (black), with the
  hex string \<open>#1a1a2e\<close>, the rgb \<open>(26, 26, 46)\<close> and the confidence exactly 1.
\<close>

theorem detectVehicleColor_solid_navy_region:
  assumes "positive_hint vehicleRegion"
    and "color_region be img vehicleRegion = Inr (regionData, pixelCount)"
    and "regionData \<noteq> []" and "set regionData \<subseteq> {(26, 26, 46)}"
  shows "detectVehicleColor be img vehicleRegion
     = Some \<lparr>ci_dominant = ''#1a1a2e'', ci_name = Den, ci_confidence = Num 1,
             ci_rgb = (26, 26, 46)\<rparr>"
proof -
  have "pixelCount = real (length regionData)"
    using assms(2,1,3) by (rule color_region_count)
  then show ?thesis
    using assms(2) classify_navy [OF assms(3,4)] by (simp add: detectVehicleColor_def)
qed

lemma navy_color_region:
  "color_region healthy navy_image None = Inr (replicate 6 (26, 26, 46), 6)"
  by code_simp

theorem detectVehicleColor_solid_navy_region_witness:
  "positive_hint None
   \<and> color_region healthy navy_image None = Inr (replicate 6 (26, 26, 46), 6)
   \<and> replicate 6 (26, 26, 46) \<noteq> ([] :: rgb list)
   \<and> set (replicate 6 (26, 26, 46)) \<subseteq> {(26, 26, 46) :: rgb}
   \<and> detectVehicleColor healthy navy_image None
       = Some \<lparr>ci_dominant = ''#1a1a2e'', ci_name = Den, ci_confidence = Num 1,
               ci_rgb = (26, 26, 46)\<rparr>"
proof -
  have h: "positive_hint None" by (simp add: positive_hint_def)
  have n: "replicate 6 (26, 26, 46) \<noteq> ([] :: rgb list)" by simp
  have s: "set (replicate 6 (26, 26, 46)) \<subseteq> {(26, 26, 46) :: rgb}" by simp
  from detectVehicleColor_solid_navy_region [OF h navy_color_region n s] h navy_color_region n s
  show ?thesis by blast
qed

lemma one_pixel_no_vehicle: "detectVehicleRegion be one_pixel_image 1 1 = None"
proof (cases "detectVehicleRegion be one_pixel_image 1 1")
  case None then show ?thesis .
next
  case (Some v)
  then obtain e where "vehicle_scan e 1 1 = Some v"
    by (auto simp: detectVehicleRegion_def split: sum.splits)
  from vehicle_scan_Some [OF this] show ?thesis by simp
qed

lemma one_pixel_color:
  "detectVehicleColor healthy one_pixel_image None
     = Some \<lparr>ci_dominant = ''#000000'', ci_name = Den, ci_confidence = NaN, ci_rgb = (0, 0, 0)\<rparr>"
  by code_simp

section \<open>Orchestrator\<close>

lemma detectLicensePlateRegion_returns:
  assumes "0 < W"
  shows "\<exists>p. detectLicensePlateRegion be img W H hint = Some p
           \<and> ((\<exists>e. plate_edges be img = Inl e) \<longrightarrow> p = None)"
proof (cases "plate_edges be img")
  case (Inl e)
  then show ?thesis by (simp add: detectLicensePlateRegion_def)
next
  case (Inr r)
  obtain ed mx where r: "r = (ed, mx)" by (cases r)
  show ?thesis using Inr r plate_candidates_total [OF assms, of ed mx H hint]
    by (simp add: detectLicensePlateRegion_def)
qed

lemma logo_scan_sizes_returns:
  assumes "\<forall>s\<in>set sizes. 0 < s"
  shows "\<exists>best'. logo_scan_sizes rd mx W H search sizes best = Some best'"
  using assms
proof (induction sizes arbitrary: best)
  case Nil
  then show ?case by simp
next
  case (Cons s sizes)
  obtain cx cy r where se: "search = (cx, cy, r)" by (cases search) auto
  have s: "0 < s" using Cons.prems by simp
  from logo_scan_size_total [OF s, of rd mx W H cx cy r best] Cons.IH Cons.prems
  show ?case by (simp add: se)
qed

lemma detectLogoRegion_returns:
  assumes "0 < W"
  shows "\<exists>l. detectLogoRegion be img W H hint = Some l
           \<and> ((\<exists>e. logo_response be img = Inl e) \<longrightarrow> l = None)"
proof (cases "logo_response be img")
  case (Inl e)
  then show ?thesis by (simp add: detectLogoRegion_def)
next
  case (Inr r)
  obtain rd mx where r: "r = (rd, mx)" by (cases r)
  have pos: "\<forall>s\<in>set (logoSizes W). 0 < s" using assms by (simp add: logoSizes_def)
  from logo_scan_sizes_returns [OF pos, of rd mx W H "logo_search W H hint" None]
  show ?thesis using Inr r by (auto simp: detectLogoRegion_def)
qed

lemma processImage_returns:
  assumes "0 < img_width img"
  shows "\<exists>p l. detectLicensePlateRegion be img (img_width img) (img_height img)
                  (detectVehicleRegion be img (img_width img) (img_height img)) = Some p
           \<and> detectLogoRegion be img (img_width img) (img_height img)
                  (detectVehicleRegion be img (img_width img) (img_height img)) = Some l
           \<and> processImage config True be (Inr img)
               = Some (Inr \<lparr>dr_vehicleRegion = detectVehicleRegion be img (img_width img) (img_height img),
                      dr_licensePlate = p, dr_logoRegion = l,
                      dr_vehicleColor = detectVehicleColor be img
                         (detectVehicleRegion be img (img_width img) (img_height img)),
                      dr_imageWidth = img_width img, dr_imageHeight = img_height img,
                      dr_isReadyForCloud = ready_for_cloud config
                         (detectVehicleRegion be img (img_width img) (img_height img)) p,
                      dr_cloudUploadStatus =
                         (if autoUploadToCloud config \<and> ready_for_cloud config
                               (detectVehicleRegion be img (img_width img) (img_height img)) p
                          then Uploaded else Pending)\<rparr>)"
proof -
  let ?v = "detectVehicleRegion be img (img_width img) (img_height img)"
  from detectLicensePlateRegion_returns [OF assms, of be img "img_height img" ?v]
  obtain p where p: "detectLicensePlateRegion be img (img_width img) (img_height img) ?v = Some p"
    by blast
  from detectLogoRegion_returns [OF assms, of be img "img_height img" ?v]
  obtain l where l: "detectLogoRegion be img (img_width img) (img_height img) ?v = Some l"
    by blast
  show ?thesis using p l by (simp add: processImage_def Let_def)
qed

lemma processImage_result:
  assumes "processImage config isInitialized be decoded = Some (Inr r)"
  shows "\<exists>img. isInitialized \<and> decoded = Inr img
          \<and> dr_vehicleRegion r = detectVehicleRegion be img (img_width img) (img_height img)
          \<and> detectLicensePlateRegion be img (img_width img) (img_height img) (dr_vehicleRegion r)
               = Some (dr_licensePlate r)
          \<and> detectLogoRegion be img (img_width img) (img_height img) (dr_vehicleRegion r)
               = Some (dr_logoRegion r)
          \<and> dr_vehicleColor r = detectVehicleColor be img (dr_vehicleRegion r)
          \<and> dr_isReadyForCloud r = ready_for_cloud config (dr_vehicleRegion r) (dr_licensePlate r)"
proof -
  from assms have i: isInitialized by (auto simp: processImage_def split: if_splits)
  from assms i obtain img where d: "decoded = Inr img"
    by (cases decoded) (auto simp: processImage_def)
  from assms i d show ?thesis
    by (auto simp: processImage_def Let_def Option.bind_eq_Some_conv)
qed

lemma black_wf: "wf_image black_image" "set (img_data black_image) \<subseteq> {(0, 0, 0)}"
  by (simp_all add: wf_image_def black_image_def)

lemma black_dims: "img_height black_image = 8" "img_width black_image = 8"
  by (simp_all add: black_image_def)

lemma black_detectors:
  "detectVehicleRegion be black_image 8 8 = None"
  "detectLicensePlateRegion be black_image 8 8 hint = Some None"
  "detectLogoRegion be black_image 8 8 hint = Some None"
proof -
  have z: "zero_response black_image" using black_wf by (rule black_zero_response)
  show "detectVehicleRegion be black_image 8 8 = None"
    using z by (simp add: zero_response_def detectVehicleRegion_zero)
  show "detectLicensePlateRegion be black_image 8 8 hint = Some None"
    using z by (simp add: zero_response_def detectLicensePlateRegion_zero)
  show "detectLogoRegion be black_image 8 8 hint = Some None"
    using z by (simp add: zero_response_def detectLogoRegion_zero)
qed

lemma black_color:
  "detectVehicleColor healthy black_image None
     = Some \<lparr>ci_dominant = ''#000000'', ci_name = Den, ci_confidence = Num 1, ci_rgb = (0, 0, 0)\<rparr>"
  "detectVehicleColor conv_fails black_image None
     = Some \<lparr>ci_dominant = ''#000000'', ci_name = Den, ci_confidence = Num 1, ci_rgb = (0, 0, 0)\<rparr>"
  by code_simp+

lemma black_processImage:
  assumes "detectVehicleColor be black_image None
     = Some \<lparr>ci_dominant = ''#000000'', ci_name = Den, ci_confidence = Num 1, ci_rgb = (0, 0, 0)\<rparr>"
  shows "processImage default_config True be (Inr black_image)
     = Some (Inr \<lparr>dr_vehicleRegion = None, dr_licensePlate = None, dr_logoRegion = None,
                   dr_vehicleColor = Some \<lparr>ci_dominant = ''#000000'', ci_name = Den,
                                            ci_confidence = Num 1, ci_rgb = (0, 0, 0)\<rparr>,
                   dr_imageWidth = 8, dr_imageHeight = 8,
                   dr_isReadyForCloud = False, dr_cloudUploadStatus = Pending\<rparr>)"
  by (simp add: processImage_def Let_def black_dims black_detectors assms ready_for_cloud_def)

lemma ready_for_cloud_ignores_minLogoConfidence:
  "ready_for_cloud (config\<lparr>minLogoConfidence := t\<rparr>) v p = ready_for_cloud config v p"
  by (cases v; cases p) (simp_all add: ready_for_cloud_def)

lemma processImage_ignores_minLogoConfidence:
  "processImage (config\<lparr>minLogoConfidence := t\<rparr>) isInitialized be decoded
     = processImage config isInitialized be decoded"
  by (cases decoded) (simp_all add: processImage_def ready_for_cloud_ignores_minLogoConfidence)

text \<open>
  Claim C1. In every result of \<open>processImage\<close>, \<open>isReadyForCloud\<close> is true if and only if
  the vehicle region that was emitted has a confidence of at least the configured
  \<open>minVehicleConfidence\<close> (0.5 by default) or the plate region that was emitted has a
  confidence of at least the configured \<open>minPlateConfidence\<close> (0.4 by default); the two
  regions are the outputs of the two detectors; \<open>minLogoConfidence\<close> plays no role, as
  changing it leaves the whole result unchanged, and neither does the logo region.
\<close>

theorem isReadyForCloud_iff_vehicle_or_plate_confident:
  assumes "processImage config isInitialized be decoded = Some (Inr r)"
  shows "(dr_isReadyForCloud r \<longleftrightarrow>
            (\<exists>v. dr_vehicleRegion r = Some v
                 \<and> js_ge (vr_confidence v) (Num (minVehicleConfidence config)))
          \<or> (\<exists>p. dr_licensePlate r = Some p
                 \<and> js_ge (lp_confidence p) (Num (minPlateConfidence config))))
       \<and> (\<exists>img. decoded = Inr img
              \<and> dr_vehicleRegion r = detectVehicleRegion be img (img_width img) (img_height img)
              \<and> detectLicensePlateRegion be img (img_width img) (img_height img)
                   (dr_vehicleRegion r) = Some (dr_licensePlate r))
       \<and> processImage (config\<lparr>minLogoConfidence := t\<rparr>) isInitialized be decoded = Some (Inr r)
       \<and> minVehicleConfidence default_config = 5 / 10
       \<and> minPlateConfidence default_config = 4 / 10"
proof -
  from processImage_result [OF assms] obtain img where
    d: "decoded = Inr img" and i: isInitialized
    and v: "dr_vehicleRegion r = detectVehicleRegion be img (img_width img) (img_height img)"
    and p: "detectLicensePlateRegion be img (img_width img) (img_height img) (dr_vehicleRegion r)
              = Some (dr_licensePlate r)"
    and rd: "dr_isReadyForCloud r = ready_for_cloud config (dr_vehicleRegion r) (dr_licensePlate r)"
    by blast
  have "dr_isReadyForCloud r \<longleftrightarrow>
            (\<exists>v. dr_vehicleRegion r = Some v
                 \<and> js_ge (vr_confidence v) (Num (minVehicleConfidence config)))
          \<or> (\<exists>p. dr_licensePlate r = Some p
                 \<and> js_ge (lp_confidence p) (Num (minPlateConfidence config)))"
    unfolding rd ready_for_cloud_def by (auto split: option.splits)
  moreover have "processImage (config\<lparr>minLogoConfidence := t\<rparr>) isInitialized be decoded = Some (Inr r)"
    using assms by (simp only: processImage_ignores_minLogoConfidence)
  ultimately show ?thesis using d v p by (simp add: default_config_def)
qed

theorem isReadyForCloud_iff_vehicle_or_plate_confident_witness:
  "processImage default_config True healthy (Inr black_image)
     = Some (Inr \<lparr>dr_vehicleRegion = None, dr_licensePlate = None, dr_logoRegion = None,
                   dr_vehicleColor = Some \<lparr>ci_dominant = ''#000000'', ci_name = Den,
                                            ci_confidence = Num 1, ci_rgb = (0, 0, 0)\<rparr>,
                   dr_imageWidth = 8, dr_imageHeight = 8,
                   dr_isReadyForCloud = False, dr_cloudUploadStatus = Pending\<rparr>)
   \<and> (\<exists>r. processImage default_config True healthy (Inr white_image) = Some (Inr r)
          \<and> dr_vehicleRegion r = Some grid_hint
          \<and> js_ge (vr_confidence grid_hint) (Num (minVehicleConfidence default_config))
          \<and> dr_isReadyForCloud r
          \<and> processImage (default_config\<lparr>minLogoConfidence := 1\<rparr>) True healthy (Inr white_image)
               = Some (Inr r))"
proof -
  have w: "0 < img_width white_image" by (simp add: white_dims)
  have wv: "detectVehicleRegion healthy white_image 8 8 = Some grid_hint"
    unfolding detectVehicleRegion_def vehicle_edges_healthy white_sq_mask sum.case
    by (rule white_vehicle_scan)
  from processImage_returns [OF w, of healthy default_config]
  obtain r where r: "processImage default_config True healthy (Inr white_image) = Some (Inr r)"
    and rv: "dr_vehicleRegion r = Some grid_hint"
    by (auto simp: white_dims wv)
  have c: "js_ge (vr_confidence grid_hint) (Num (minVehicleConfidence default_config))"
    by (simp add: grid_hint_def default_config_def)
  from isReadyForCloud_iff_vehicle_or_plate_confident [OF r, of 1] rv c
  have "dr_isReadyForCloud r"
    and "processImage (default_config\<lparr>minLogoConfidence := 1\<rparr>) True healthy (Inr white_image)
           = Some (Inr r)"
    by blast+
  with r rv c black_processImage [OF black_color(1)] show ?thesis by blast
qed

text \<open>
  Claim C2 (amended). A failure of the numeric computation inside a detector is caught
  by that detector and reported as an absent field of a result that \<open>processImage\<close>
  returns as usual, like a soft miss: whenever the service is initialized and the image
  was decoded (its width being positive), \<open>processImage\<close> returns a result, in which the
  field of every detector whose tensor code threw is absent. \<open>processImage\<close> fails only
  when the service is not initialized or when reading or decoding the image fails.
\<close>

theorem processImage_swallows_detector_failures:
  "(0 < img_width img \<longrightarrow>
      (\<exists>r. processImage config True be (Inr img) = Some (Inr r)
          \<and> ((\<exists>e. vehicle_edges be img = Inl e) \<longrightarrow> dr_vehicleRegion r = None)
          \<and> ((\<exists>e. plate_edges be img = Inl e) \<longrightarrow> dr_licensePlate r = None)
          \<and> ((\<exists>e. logo_response be img = Inl e) \<longrightarrow> dr_logoRegion r = None)
          \<and> ((\<exists>e. color_region be img (dr_vehicleRegion r) = Inl e) \<longrightarrow> dr_vehicleColor r = None)))
   \<and> processImage config False be decoded = Some (Inl ServiceNotInitialized)
   \<and> processImage config True be (Inl err) = Some (Inl err)"
proof (intro conjI impI)
  assume w: "0 < img_width img"
  let ?v = "detectVehicleRegion be img (img_width img) (img_height img)"
  from detectLicensePlateRegion_returns [OF w, of be img "img_height img" ?v]
  obtain p where p: "detectLicensePlateRegion be img (img_width img) (img_height img) ?v = Some p"
    "(\<exists>e. plate_edges be img = Inl e) \<longrightarrow> p = None" by blast
  from detectLogoRegion_returns [OF w, of be img "img_height img" ?v]
  obtain l where l: "detectLogoRegion be img (img_width img) (img_height img) ?v = Some l"
    "(\<exists>e. logo_response be img = Inl e) \<longrightarrow> l = None" by blast
  let ?r = "\<lparr>dr_vehicleRegion = ?v, dr_licensePlate = p, dr_logoRegion = l,
             dr_vehicleColor = detectVehicleColor be img ?v,
             dr_imageWidth = img_width img, dr_imageHeight = img_height img,
             dr_isReadyForCloud = ready_for_cloud config ?v p,
             dr_cloudUploadStatus =
               (if autoUploadToCloud config \<and> ready_for_cloud config ?v p
                then Uploaded else Pending)\<rparr>"
  have r: "processImage config True be (Inr img) = Some (Inr ?r)"
    using p(1) l(1) by (simp add: processImage_def Let_def)
  have v: "(\<exists>e. vehicle_edges be img = Inl e) \<longrightarrow> dr_vehicleRegion ?r = None"
    by (auto simp: detectVehicleRegion_def)
  have c: "(\<exists>e. color_region be img (dr_vehicleRegion ?r) = Inl e) \<longrightarrow> dr_vehicleColor ?r = None"
    by (auto simp: detectVehicleColor_def)
  show "\<exists>r. processImage config True be (Inr img) = Some (Inr r)
          \<and> ((\<exists>e. vehicle_edges be img = Inl e) \<longrightarrow> dr_vehicleRegion r = None)
          \<and> ((\<exists>e. plate_edges be img = Inl e) \<longrightarrow> dr_licensePlate r = None)
          \<and> ((\<exists>e. logo_response be img = Inl e) \<longrightarrow> dr_logoRegion r = None)
          \<and> ((\<exists>e. color_region be img (dr_vehicleRegion r) = Inl e) \<longrightarrow> dr_vehicleColor r = None)"
    using r v c p(2) l(2) by (intro exI [of _ ?r]) simp
next
  show "processImage config False be decoded = Some (Inl ServiceNotInitialized)"
    by (simp add: processImage_def)
  show "processImage config True be (Inl err) = Some (Inl err)"
    by (simp add: processImage_def)
qed

lemma conv_fails_edges:
  "vehicle_edges conv_fails img = Inl (TfError TfConv2d)"
  "plate_edges conv_fails img = Inl (TfError TfConv2d)"
  "logo_response conv_fails img = Inl (TfError TfConv2d)"
  by (simp_all add: vehicle_edges_def plate_edges_def logo_response_def tf_try_def conv_fails_def)

lemma conv_fails_detectors:
  "detectVehicleRegion conv_fails img W H = None"
  "detectLicensePlateRegion conv_fails img W H hint = Some None"
  "detectLogoRegion conv_fails img W H hint = Some None"
  by (simp_all add: detectVehicleRegion_def detectLicensePlateRegion_def detectLogoRegion_def
        conv_fails_edges)

lemma white_color_region:
  "color_region conv_fails white_image None = Inr (replicate 12 (255, 255, 255), 12)"
  by code_simp

lemma histogram_pixel_white:
  "histogram_pixel (255, 255, 255) hist = histogram_add (224, 224, 224) (255, 255, 255) hist"
  by (simp add: histogram_pixel_def js_round_def)

lemma fold_histogram_white:
  "fold histogram_pixel (replicate n (255, 255, 255)) [((224, 224, 224), (c, sr, sg, sb))]
     = [((224, 224, 224), (c + int n, sr + 255 * int n, sg + 255 * int n, sb + 255 * int n))]"
  by (induction n arbitrary: c sr sg sb)
     (simp_all add: histogram_pixel_white algebra_simps del: fold_replicate)

lemma rgbToHex_white: "rgbToHex 255 255 255 = ''#ffffff''"
  by code_simp

lemma histogram_white:
  "fold histogram_pixel (replicate (Suc n) (255, 255, 255)) []
     = [((224, 224, 224), (1 + int n, 255 + 255 * int n, 255 + 255 * int n, 255 + 255 * int n))]"
  by (simp add: histogram_pixel_white fold_histogram_white del: fold_replicate)

lemma white_classify:
  "classify_region (replicate 12 (255, 255, 255)) 12
     = \<lparr>ci_dominant = ''#ffffff'', ci_name = Trang, ci_confidence = Num 1,
        ci_rgb = (255, 255, 255)\<rparr>"
proof -
  have s: "(12 :: nat) = Suc 11" by simp
  have h: "fold histogram_pixel (replicate 12 (255, 255, 255)) []
             = [((224, 224, 224), (12, 3060, 3060, 3060))]"
    unfolding s histogram_white by simp
  have d: "fold dominant_step [((224, 224, 224), (12, 3060, 3060, 3060))] (0, 0, 0, 0)
             = (255, 255, 255, 12)"
    by (simp add: dominant_step_def js_round_def)
  have l: "rgbToHsl 255 255 255 = (0, 0, 100)" by (simp add: rgbToHsl_def Let_def)
  show ?thesis
    unfolding classify_region_def Let_def h d prod.case l rgbToHex_white
    by (simp add: getColorName_def)
qed

lemma white_color_conv_fails:
  "detectVehicleColor conv_fails white_image None
     = Some \<lparr>ci_dominant = ''#ffffff'', ci_name = Trang, ci_confidence = Num 1,
             ci_rgb = (255, 255, 255)\<rparr>"
  by (simp add: detectVehicleColor_def white_color_region white_classify)

lemma white_processImage_conv_fails:
  "processImage default_config True conv_fails (Inr white_image)
     = Some (Inr \<lparr>dr_vehicleRegion = None, dr_licensePlate = None, dr_logoRegion = None,
                   dr_vehicleColor = Some \<lparr>ci_dominant = ''#ffffff'', ci_name = Trang,
                                            ci_confidence = Num 1, ci_rgb = (255, 255, 255)\<rparr>,
                   dr_imageWidth = 8, dr_imageHeight = 8,
                   dr_isReadyForCloud = False, dr_cloudUploadStatus = Pending\<rparr>)"
  by (simp add: processImage_def Let_def white_dims conv_fails_detectors white_color_conv_fails
        ready_for_cloud_def)

theorem processImage_swallows_detector_failures_witness:
  "0 < img_width white_image
   \<and> vehicle_edges conv_fails white_image = Inl (TfError TfConv2d)
   \<and> plate_edges conv_fails white_image = Inl (TfError TfConv2d)
   \<and> logo_response conv_fails white_image = Inl (TfError TfConv2d)
   \<and> (\<exists>r. processImage default_config True conv_fails (Inr white_image) = Some (Inr r)
          \<and> dr_vehicleRegion r = None \<and> dr_licensePlate r = None \<and> dr_logoRegion r = None)
   \<and> processImage default_config False conv_fails (Inr white_image)
       = Some (Inl ServiceNotInitialized)
   \<and> processImage default_config True conv_fails (Inl ReadOrDecodeError)
       = Some (Inl ReadOrDecodeError)"
proof -
  have w: "0 < img_width white_image" by (simp add: white_dims)
  note T = processImage_swallows_detector_failures
             [of white_image default_config conv_fails "Inr white_image" ReadOrDecodeError]
  from T w conv_fails_edges [of white_image]
  have "\<exists>r. processImage default_config True conv_fails (Inr white_image) = Some (Inr r)
          \<and> dr_vehicleRegion r = None \<and> dr_licensePlate r = None \<and> dr_logoRegion r = None"
    by auto
  with T w conv_fails_edges [of white_image] show ?thesis by simp
qed

theorem processImage_detector_failure_not_an_error_counterexample:
  "vehicle_edges conv_fails white_image = Inl (TfError TfConv2d)
   \<and> processImage default_config True conv_fails (Inr white_image)
       = Some (Inr \<lparr>dr_vehicleRegion = None, dr_licensePlate = None, dr_logoRegion = None,
                     dr_vehicleColor = Some \<lparr>ci_dominant = ''#ffffff'', ci_name = Trang,
                                              ci_confidence = Num 1, ci_rgb = (255, 255, 255)\<rparr>,
                     dr_imageWidth = 8, dr_imageHeight = 8,
                     dr_isReadyForCloud = False, dr_cloudUploadStatus = Pending\<rparr>)
   \<and> detectVehicleRegion healthy white_image 8 8
       = Some \<lparr>vr_type = Front, vr_bbox = \<lparr>bb_x = 0, bb_y = 0, bb_width = 3, bb_height = 3\<rparr>,
               vr_confidence = Num (95 / 100)\<rparr>
   \<and> processImage default_config True conv_fails (Inr black_image)
       = processImage default_config True healthy (Inr black_image)"
proof -
  have wv: "detectVehicleRegion healthy white_image 8 8 = Some grid_hint"
    unfolding detectVehicleRegion_def vehicle_edges_healthy white_sq_mask sum.case
    by (rule white_vehicle_scan)
  have b: "processImage default_config True conv_fails (Inr black_image)
       = processImage default_config True healthy (Inr black_image)"
    by (simp only: black_processImage [OF black_color(1)] black_processImage [OF black_color(2)])
  show ?thesis
    using conv_fails_edges(1) [of white_image] white_processImage_conv_fails wv b
    by (simp add: grid_hint_def)
qed

section \<open>Confidence bounds\<close>

lemma capped_confidence:
  assumes "js_gt s (Num c)" "0 \<le> c" "0 < k" "0 \<le> cap" "cap \<le> 1"
  shows "in_unit_interval (js_min (js_mul s (Num k)) (Num cap))"
proof (cases s)
  case (Num a)
  with assms have "0 < a * k" by simp
  with Num assms show ?thesis by (simp add: min_def)
next
  case PosInf
  with assms show ?thesis by simp
qed (use assms in simp_all)

lemma vehicle_confidence_in_unit_interval:
  assumes "detectVehicleRegion be img W H = Some v"
  shows "in_unit_interval (vr_confidence v)"
proof -
  from assms obtain e where "vehicle_scan e W H = Some v"
    by (auto simp: detectVehicleRegion_def split: sum.splits)
  from vehicle_scan_Some [OF this] obtain gy gx where
    "vr_confidence v = js_min (js_mul (window_density e W H gx gy) (Num 5)) (Num (95 / 100))"
    "js_gt (window_density e W H gx gy) (Num (5 / 100))" by blast
  then show ?thesis using capped_confidence [of "window_density e W H gx gy" "5 / 100" 5 "95 / 100"]
    by simp
qed

lemma plate_score_positive:
  assumes "js_gt ed (Num (15 / 100))" "js_gt hr (Num (1 / 10))"
  shows "js_gt (js_add (js_mul ed (Num (6 / 10))) (js_mul hr (Num (4 / 10)))) (Num 0)"
  using assms by (cases ed; cases hr) (simp_all add: add_pos_pos)

lemma plate_confidence_in_unit_interval:
  assumes "0 < W" "detectLicensePlateRegion be img W H hint = Some (Some p)"
  shows "in_unit_interval (lp_confidence p)"
proof -
  from assms(2) obtain ed mx cands where
    c: "plate_candidates ed mx W H hint = Some cands" and b: "plate_best cands = Some p"
    by (auto simp: detectLicensePlateRegion_def split: sum.splits)
  from plate_best_member [OF b] obtain c where m: "c \<in> set cands"
    and conf: "lp_confidence p = js_min (js_mul (snd c) (Num 2)) (Num (9 / 10))" by blast
  obtain sx sy ex ey where bd: "plate_search_bounds W H hint = (sx, sy, ex, ey)"
    by (cases "plate_search_bounds W H hint") auto
  from c m plate_candidates_total [OF assms(1), of ed mx H hint] bd
  have "c \<in> set (plate_size_candidates ed mx W (sx, sy, ex, ey) (real W * (25 / 100), real W * (65 / 1000)))
      \<or> c \<in> set (plate_size_candidates ed mx W (sx, sy, ex, ey) (real W * (15 / 100), real W * (75 / 1000)))"
    by auto
  then obtain w h x y where "c \<in> set (plate_window ed mx W w h x y)"
    using assms(1) plate_size_candidates_member
    by (metis mult_pos_pos of_nat_0_less_iff zero_less_divide_iff zero_less_numeral)
  from plate_window_member [OF this]
  have "js_gt (snd c) (Num 0)"
    using plate_score_positive [of "plate_edgeDensity ed mx W w h x y"
                                   "plate_horizontalRatio ed mx W w h x y"]
    by simp
  then show ?thesis unfolding conf
    using capped_confidence [of "snd c" 0 2 "9 / 10"] by simp
qed

lemma logo_confidence_in_unit_interval:
  assumes "detectLogoRegion be img W H hint = Some (Some l)"
  shows "in_unit_interval (lg_confidence l)"
proof -
  from assms obtain b where "logo_best b = Some l"
    by (auto simp: detectLogoRegion_def split: sum.splits)
  then obtain c :: logo_candidate where "js_gt (snd c) (Num (1 / 10))"
    "lg_confidence l = js_min (js_mul (snd c) (Num 3)) (Num (85 / 100))"
    by (auto simp: logo_best_def split: option.splits if_splits)
  then show ?thesis using capped_confidence [of "snd c" "1 / 10" 3 "85 / 100"] by simp
qed

lemma histogram_add_counts:
  assumes "\<forall>e\<in>set h. 1 \<le> fst (snd e)"
  shows "(\<forall>e\<in>set (histogram_add k c h). 1 \<le> fst (snd e))
       \<and> sum_list (map (\<lambda>e. fst (snd e)) (histogram_add k c h)) = sum_list (map (\<lambda>e. fst (snd e)) h) + 1
       \<and> histogram_add k c h \<noteq> []"
  using assms by (induction k c h rule: histogram_add.induct) auto

lemma fold_histogram_nonempty:
  "h \<noteq> [] \<Longrightarrow> fold histogram_pixel px h \<noteq> []"
proof (induction px arbitrary: h)
  case Nil
  then show ?case by simp
next
  case (Cons p px)
  obtain k c where hp: "histogram_pixel p h = histogram_add k c h"
    by (cases p) (simp add: histogram_pixel_def Let_def)
  have "histogram_add k c h \<noteq> []" by (induction k c h rule: histogram_add.induct) auto
  then show ?case using Cons.IH by (simp add: hp)
qed

lemma fold_histogram_counts:
  assumes "\<forall>e\<in>set h. 1 \<le> fst (snd e)"
  shows "(\<forall>e\<in>set (fold histogram_pixel px h). 1 \<le> fst (snd e))
       \<and> sum_list (map (\<lambda>e. fst (snd e)) (fold histogram_pixel px h))
           = sum_list (map (\<lambda>e. fst (snd e)) h) + int (length px)"
  using assms
proof (induction px arbitrary: h)
  case Nil
  then show ?case by simp
next
  case (Cons p px)
  obtain k c where hp: "histogram_pixel p h = histogram_add k c h"
    by (cases p) (simp add: histogram_pixel_def Let_def)
  note A = histogram_add_counts [OF Cons.prems, of k c]
  from A have inv: "\<forall>e\<in>set (histogram_pixel p h). 1 \<le> fst (snd e)" by (simp add: hp)
  from Cons.IH [OF inv] A show ?case by (simp add: hp)
qed

lemma histogram_pixel_nonempty: "histogram_pixel p h \<noteq> []"
proof -
  obtain k c where hp: "histogram_pixel p h = histogram_add k c h"
    by (cases p) (simp add: histogram_pixel_def Let_def)
  have "histogram_add k c h \<noteq> []" by (induction k c h rule: histogram_add.induct) auto
  then show ?thesis by (simp add: hp)
qed

lemma member_le_sum_list_int:
  assumes "\<forall>x\<in>set xs. (0 :: int) \<le> x" "x \<in> set xs"
  shows "x \<le> sum_list xs"
  using assms by (induction xs) (auto simp: sum_list_nonneg intro: add_increasing add_increasing2)

lemma fold_dominant_step_count:
  "\<exists>r g b c. fold dominant_step h (r0, g0, b0, c0) = (r, g, b, c) \<and> c0 \<le> c
     \<and> (c = c0 \<or> c \<in> set (map (\<lambda>e. fst (snd e)) h))
     \<and> (\<forall>e\<in>set h. fst (snd e) \<le> c)"
proof (induction h arbitrary: r0 g0 b0 c0)
  case Nil
  then show ?case by simp
next
  case (Cons e h)
  obtain k n sr sg sb where e: "e = (k, (n, sr, sg, sb))" by (cases e) auto
  show ?case
  proof (cases "n > c0")
    case True
    obtain r1 g1 b1 where s: "dominant_step e (r0, g0, b0, c0) = (r1, g1, b1, n)"
      using True by (simp add: dominant_step_def e)
    from Cons.IH [of r1 g1 b1 n] obtain r g b c where
      "fold dominant_step h (r1, g1, b1, n) = (r, g, b, c)" "n \<le> c"
      "c = n \<or> c \<in> set (map (\<lambda>e. fst (snd e)) h)" "\<forall>e\<in>set h. fst (snd e) \<le> c" by blast
    then show ?thesis using True s e by auto
  next
    case False
    have s: "dominant_step e (r0, g0, b0, c0) = (r0, g0, b0, c0)"
      using False by (simp add: dominant_step_def e)
    from Cons.IH [of r0 g0 b0 c0] obtain r g b c where
      "fold dominant_step h (r0, g0, b0, c0) = (r, g, b, c)" "c0 \<le> c"
      "c = c0 \<or> c \<in> set (map (\<lambda>e. fst (snd e)) h)" "\<forall>e\<in>set h. fst (snd e) \<le> c" by blast
    then show ?thesis using False s e by auto
  qed
qed

lemma color_confidence_in_unit_interval:
  assumes "positive_hint vehicleRegion"
    and "color_region be img vehicleRegion = Inr (regionData, pixelCount)"
    and "regionData \<noteq> []"
    and "detectVehicleColor be img vehicleRegion = Some c"
  shows "in_unit_interval (ci_confidence c)"
proof -
  have pc: "pixelCount = real (length regionData)" using assms(2,1,3) by (rule color_region_count)
  let ?h = "fold histogram_pixel regionData []"
  from fold_histogram_counts [of "[]" regionData]
  have pos: "\<forall>e\<in>set ?h. 1 \<le> fst (snd e)"
    and total: "sum_list (map (\<lambda>e. fst (snd e)) ?h) = int (length regionData)" by simp_all
  have ne: "?h \<noteq> []"
  proof (cases regionData)
    case Nil
    with assms(3) show ?thesis by simp
  next
    case (Cons p ps)
    then show ?thesis using fold_histogram_nonempty [OF histogram_pixel_nonempty, of ps p "[]"]
      by simp
  qed
  from fold_dominant_step_count [of ?h 0 0 0 0] obtain r g b n where
    d: "fold dominant_step ?h (0, 0, 0, 0) = (r, g, b, n)"
    and m: "n = 0 \<or> n \<in> set (map (\<lambda>e. fst (snd e)) ?h)"
    and mx: "\<forall>e\<in>set ?h. fst (snd e) \<le> n" by blast
  from ne have "hd ?h \<in> set ?h" by simp
  with pos mx have n1: "1 \<le> n" by fastforce
  with m have "n \<in> set (map (\<lambda>e. fst (snd e)) ?h)" by simp
  moreover have "\<forall>x\<in>set (map (\<lambda>e. fst (snd e)) ?h). 0 \<le> x" using pos by fastforce
  ultimately have "n \<le> sum_list (map (\<lambda>e. fst (snd e)) ?h)" by (rule member_le_sum_list_int [rotated])
  then have le: "n \<le> int (length regionData)" using total by simp
  from assms(4,2) have "ci_confidence c = js_div (Num (real_of_int n)) (Num pixelCount)"
    by (auto simp: detectVehicleColor_def classify_region_def Let_def d split: prod.splits)
  then show ?thesis using n1 le pc assms(3) by (simp add: divide_le_eq)
qed

lemma one_pixel_processImage:
  "processImage default_config True healthy (Inr one_pixel_image)
     = Some (Inr \<lparr>dr_vehicleRegion = None, dr_licensePlate = None, dr_logoRegion = None,
                   dr_vehicleColor = Some \<lparr>ci_dominant = ''#000000'', ci_name = Den,
                                            ci_confidence = NaN, ci_rgb = (0, 0, 0)\<rparr>,
                   dr_imageWidth = 1, dr_imageHeight = 1,
                   dr_isReadyForCloud = False, dr_cloudUploadStatus = Pending\<rparr>)"
proof -
  have d: "img_height one_pixel_image = 1" "img_width one_pixel_image = 1"
    by (simp_all add: one_pixel_image_def)
  have "wf_image one_pixel_image" "set (img_data one_pixel_image) \<subseteq> {(0, 0, 0)}"
    by (simp_all add: wf_image_def one_pixel_image_def)
  then have z: "zero_response one_pixel_image" by (rule black_zero_response)
  have p: "detectLicensePlateRegion healthy one_pixel_image 1 1 None = Some None"
    using z by (simp add: zero_response_def detectLicensePlateRegion_zero)
  have l: "detectLogoRegion healthy one_pixel_image 1 1 None = Some None"
    using z by (simp add: zero_response_def detectLogoRegion_zero)
  have v: "detectVehicleRegion healthy one_pixel_image (Suc 0) (Suc 0) = None"
    using one_pixel_no_vehicle by simp
  have p': "detectLicensePlateRegion healthy one_pixel_image (Suc 0) (Suc 0) None = Some None"
    using p by simp
  have l': "detectLogoRegion healthy one_pixel_image (Suc 0) (Suc 0) None = Some None"
    using l by simp
  show ?thesis
    by (simp add: processImage_def Let_def d v p' l' one_pixel_color ready_for_cloud_def)
qed

text \<open>
  Claim C9, at the input that breaks it. For an image of a single pixel no vehicle
  region is found, the central crop that \<open>detectVehicleColor\<close> samples is empty, and the
  confidence it returns is \<open>0 / 0\<close>, which is \<open>NaN\<close> and not a number between 0 and 1;
  \<open>processImage\<close> returns it in its result. (The confidences of the other three
  detectors, and the color confidence of a sample that is not empty, do lie between 0
  and 1: lemmas \<open>vehicle_confidence_in_unit_interval\<close>,
  \<open>plate_confidence_in_unit_interval\<close>, \<open>logo_confidence_in_unit_interval\<close> and
  \<open>color_confidence_in_unit_interval\<close>.)
\<close>

theorem detectVehicleColor_confidence_nan_on_empty_crop:
  "detectVehicleRegion healthy one_pixel_image 1 1 = None
   \<and> color_region healthy one_pixel_image None = Inr ([], 0)
   \<and> detectVehicleColor healthy one_pixel_image None
       = Some \<lparr>ci_dominant = ''#000000'', ci_name = Den, ci_confidence = NaN, ci_rgb = (0, 0, 0)\<rparr>
   \<and> \<not> in_unit_interval NaN
   \<and> processImage default_config True healthy (Inr one_pixel_image)
       = Some (Inr \<lparr>dr_vehicleRegion = None, dr_licensePlate = None, dr_logoRegion = None,
                     dr_vehicleColor = Some \<lparr>ci_dominant = ''#000000'', ci_name = Den,
                                              ci_confidence = NaN, ci_rgb = (0, 0, 0)\<rparr>,
                     dr_imageWidth = 1, dr_imageHeight = 1,
                     dr_isReadyForCloud = False, dr_cloudUploadStatus = Pending\<rparr>)"
proof -
  have "color_region healthy one_pixel_image None = Inr ([], 0)" by code_simp
  then show ?thesis using one_pixel_no_vehicle one_pixel_color one_pixel_processImage by simp
qed

end
